theory Spec2Isabelle
  imports Complex_Main
begin

section \<open>Numerical simulation of oscillations: the notebook \<open>osclab_basic.ipynb\<close>\<close>

text \<open>
  The notebook has three code cells: the undamped oscillator (Euler-Cromer and Euler loops
  and the exact solution), the damped oscillator and the driven oscillator (Euler-Cromer
  only). Each cell is a script over global variables; here every cell is a function of the
  variables it assigns before it computes, and it returns the arrays \<open>t\<close>, \<open>x\<close>, \<open>v\<close> it
  leaves behind. Plotting is left out.

  In the definitions of the cells Python floats are the real numbers and every operation is
  exact: rounding, infinities and the overflow of \<open>**\<close> are outside this model. A second
  copy of cell 1, further down, rounds the result of every operation to float64. Python
  integers are \<open>int\<close>. Every operation of the cells that can raise is a branch returning
  \<open>Inl\<close>.
\<close>

subsection \<open>Errors and the NumPy primitives the cells call\<close>

text \<open>
  The errors a cell can stop with. OverflowError is what \<open>om**2\<close> raises on a float whose
  square is out of range; it occurs in the float64 copy of cell 1 only.
\<close>

datatype py_error = ZeroDivisionError | ValueError | IndexError | OverflowError

definition bind_res :: "py_error + 'a \<Rightarrow> ('a \<Rightarrow> py_error + 'b) \<Rightarrow> py_error + 'b" where
  "bind_res m f = (case m of Inl e \<Rightarrow> Inl e | Inr y \<Rightarrow> f y)"

text \<open>Python's true division \<open>a / b\<close> of numbers: it raises when the divisor is zero.\<close>

definition true_div :: "real \<Rightarrow> real \<Rightarrow> py_error + real" where
  "true_div a b = (if b = 0 then Inl ZeroDivisionError else Inr (a / b))"

text \<open>\<open>np.zeros(n)\<close>: an array of \<open>n\<close> zeros; a negative dimension raises ValueError.\<close>

definition np_zeros :: "int \<Rightarrow> py_error + real list" where
  "np_zeros n = (if n < 0 then Inl ValueError else Inr (replicate (nat n) 0))"

text \<open>
  \<open>np.linspace(start, stop, num)\<close> with the default \<open>endpoint=True\<close>, as NumPy computes
  it: \<open>div = num - 1\<close>, \<open>delta = stop - start\<close>, \<open>y = arange(0, num)\<close>; when \<open>div > 0\<close>,
  \<open>step = delta / div\<close> and \<open>y = y * step\<close> (or \<open>y / div * delta\<close> when the step is zero),
  otherwise \<open>y = y * delta\<close>; then \<open>y += start\<close>, and the last entry is set to \<open>stop\<close> when
  \<open>num > 1\<close>. A negative \<open>num\<close> raises ValueError.
\<close>

definition np_linspace :: "real \<Rightarrow> real \<Rightarrow> int \<Rightarrow> py_error + real list" where
  "np_linspace start stop num =
     (if num < 0 then Inl ValueError
      else
        let n = nat num;
            dv = real_of_int (num - 1);
            delta = stop - start;
            y = map real [0..<n];
            y1 = (if 0 < dv
                  then (let step = delta / dv
                        in if step = 0 then map (\<lambda>k. k / dv * delta) y
                           else map (\<lambda>k. k * step) y)
                  else map (\<lambda>k. k * delta) y);
            y2 = map (\<lambda>k. k + start) y1;
            y3 = (if 1 < num then y2[n - 1 := stop] else y2)
        in Inr y3)"

text \<open>
  Reading and writing an array at a non-negative index (the cells only use the indices
  \<open>0\<close>, \<open>i\<close> and \<open>i+1\<close> with \<open>i\<close> from \<open>range(0, N)\<close>): out of range raises IndexError.
\<close>

definition getitem :: "real list \<Rightarrow> nat \<Rightarrow> py_error + real" where
  "getitem a i = (if i < length a then Inr (a ! i) else Inl IndexError)"

definition setitem :: "real list \<Rightarrow> nat \<Rightarrow> real \<Rightarrow> py_error + real list" where
  "setitem a i y = (if i < length a then Inr (a[i := y]) else Inl IndexError)"

text \<open>\<open>for i in range(0, N): body\<close>, over the list of indices; the first error ends the loop.\<close>

fun for_range :: "(nat \<Rightarrow> 's \<Rightarrow> py_error + 's) \<Rightarrow> nat list \<Rightarrow> 's \<Rightarrow> py_error + 's" where
  "for_range body [] s = Inr s"
| "for_range body (i # js) s =
     (case body i s of Inl e \<Rightarrow> Inl e | Inr s' \<Rightarrow> for_range body js s')"

definition range0 :: "int \<Rightarrow> nat list" where
  "range0 N = [0..<nat N]"

subsection \<open>The acceleration laws and the exact solution\<close>

text \<open>Cell 1: \<open>def acc(x, om): return -om**2 * x\<close>.\<close>

definition acc :: "real \<Rightarrow> real \<Rightarrow> real" where
  "acc x om = - (om ^ 2) * x"

text \<open>Cell 2: \<open>def acc(x, v, om, de): return -om**2 * x - 2 * de * v\<close>.\<close>

definition acc_damped :: "real \<Rightarrow> real \<Rightarrow> real \<Rightarrow> real \<Rightarrow> real" where
  "acc_damped x v om de = - (om ^ 2) * x - 2 * de * v"

text \<open>Cell 3: \<open>def acc(t, x, v, om, de, a_d, om_d):
  return -om**2 * x - 2 * de * v + a_d * np.sin(om_d * t)\<close>.\<close>

definition acc_driven :: "real \<Rightarrow> real \<Rightarrow> real \<Rightarrow> real \<Rightarrow> real \<Rightarrow> real \<Rightarrow> real \<Rightarrow> real" where
  "acc_driven t x v om de a_d om_d = - (om ^ 2) * x - 2 * de * v + a_d * sin (om_d * t)"

text \<open>
  Cell 1: \<open>def ex_sol(t, om, x0, v0): return x0 * np.cos(om*t) + v0 / om * np.sin(om*t),
  -x0*om * np.sin(om*t) + v0 * np.cos(om*t)\<close>, called with an array of times \<open>t\<close> and
  Python numbers \<open>om\<close>, \<open>x0\<close>, \<open>v0\<close>: the quotient \<open>v0 / om\<close> raises when \<open>om\<close> is zero.
\<close>

definition ex_sol :: "real list \<Rightarrow> real \<Rightarrow> real \<Rightarrow> real \<Rightarrow> py_error + (real list \<times> real list)" where
  "ex_sol t om x0 v0 =
     bind_res (true_div v0 om) (\<lambda>q.
       Inr (map (\<lambda>\<tau>. x0 * cos (om * \<tau>) + q * sin (om * \<tau>)) t,
            map (\<lambda>\<tau>. - x0 * om * sin (om * \<tau>) + v0 * cos (om * \<tau>)) t))"

subsection \<open>The arrays and the loops\<close>

record arrays =
  arr_t :: "real list"
  arr_x :: "real list"
  arr_v :: "real list"

datatype scheme = Euler | EulerCromer

text \<open>
  One iteration of a loop. The first line of the body computes \<open>a\<close> (it differs from cell
  to cell); then \<open>v[i+1] = v[i] + a * dt\<close>; then \<open>x[i+1] = x[i] + v[i+1] * dt\<close>
  (Euler-Cromer) or \<open>x[i+1] = x[i] + v[i] * dt\<close> (Euler), which reads \<open>v\<close> after the
  write to \<open>v[i+1]\<close>.
\<close>

definition loop_body ::
  "scheme \<Rightarrow> (nat \<Rightarrow> arrays \<Rightarrow> py_error + real) \<Rightarrow> real \<Rightarrow> nat \<Rightarrow> arrays \<Rightarrow> py_error + arrays" where
  "loop_body sch a_of dt i s =
     bind_res (a_of i s) (\<lambda>a.
     bind_res (getitem (arr_v s) i) (\<lambda>vi.
     bind_res (setitem (arr_v s) (i + 1) (vi + a * dt)) (\<lambda>v'.
     bind_res (getitem (arr_x s) i) (\<lambda>xi.
     bind_res (getitem v' (case sch of Euler \<Rightarrow> i | EulerCromer \<Rightarrow> i + 1)) (\<lambda>vu.
     bind_res (setitem (arr_x s) (i + 1) (xi + vu * dt)) (\<lambda>x'.
       Inr (s\<lparr>arr_x := x', arr_v := v'\<rparr>)))))))"

text \<open>Cell 1: \<open>a = acc(x[i], om)\<close>.\<close>

definition a_undamped :: "real \<Rightarrow> nat \<Rightarrow> arrays \<Rightarrow> py_error + real" where
  "a_undamped om i s = bind_res (getitem (arr_x s) i) (\<lambda>xi. Inr (acc xi om))"

text \<open>Cell 2: \<open>a = acc(x[i], v[i], om, ze*om)\<close>.\<close>

definition a_damped :: "real \<Rightarrow> real \<Rightarrow> nat \<Rightarrow> arrays \<Rightarrow> py_error + real" where
  "a_damped om ze i s =
     bind_res (getitem (arr_x s) i) (\<lambda>xi.
     bind_res (getitem (arr_v s) i) (\<lambda>vi. Inr (acc_damped xi vi om (ze * om))))"

text \<open>Cell 3: \<open>a = acc(i*dt, x[i], v[i], om, ze*om, a0, om_d)\<close>.\<close>

definition a_driven :: "real \<Rightarrow> real \<Rightarrow> real \<Rightarrow> real \<Rightarrow> real \<Rightarrow> nat \<Rightarrow> arrays \<Rightarrow> py_error + real" where
  "a_driven dt om ze a0 om_d i s =
     bind_res (getitem (arr_x s) i) (\<lambda>xi.
     bind_res (getitem (arr_v s) i) (\<lambda>vi.
       Inr (acc_driven (real i * dt) xi vi om (ze * om) a0 om_d)))"

text \<open>
  The set-up shared by the three cells, after \<open>dt = tmax/N\<close>:
  \<open>t = np.linspace(0, tmax, N+1)\<close>, \<open>x = np.zeros(N+1)\<close>, \<open>v = np.zeros(N+1)\<close>,
  \<open>x[0] = x0\<close>, \<open>v[0] = v0\<close>.
\<close>

definition init_arrays :: "int \<Rightarrow> real \<Rightarrow> real \<Rightarrow> real \<Rightarrow> py_error + arrays" where
  "init_arrays N tmax x0 v0 =
     bind_res (np_linspace 0 tmax (N + 1)) (\<lambda>t.
     bind_res (np_zeros (N + 1)) (\<lambda>x.
     bind_res (np_zeros (N + 1)) (\<lambda>v.
     bind_res (setitem x 0 x0) (\<lambda>x'.
     bind_res (setitem v 0 v0) (\<lambda>v'.
       Inr \<lparr>arr_t = t, arr_x = x', arr_v = v'\<rparr>)))))"

text \<open>
  Cell 1, with the variables it assigns as arguments (\<open>N_ex = 100\<close> is a constant of the
  cell). The Euler-Cromer loop runs when \<open>ec\<close>, then the Euler loop when \<open>eu\<close>, on the
  same arrays \<open>x\<close> and \<open>v\<close>; then the exact solution is evaluated when \<open>ex\<close>. The
  result is the arrays at the end of the cell, and the exact solution if it was computed.
\<close>

definition cell_undamped ::
  "int \<Rightarrow> real \<Rightarrow> real \<Rightarrow> real \<Rightarrow> bool \<Rightarrow> bool \<Rightarrow> bool \<Rightarrow> real
     \<Rightarrow> py_error + (arrays \<times> (real list \<times> real list) option)" where
  "cell_undamped N om x0 v0 ec eu ex tmax =
     bind_res (true_div tmax (real_of_int N)) (\<lambda>dt.
     bind_res (init_arrays N tmax x0 v0) (\<lambda>s0.
     bind_res (if ec then for_range (loop_body EulerCromer (a_undamped om) dt) (range0 N) s0
               else Inr s0) (\<lambda>s1.
     bind_res (if eu then for_range (loop_body Euler (a_undamped om) dt) (range0 N) s1
               else Inr s1) (\<lambda>s2.
     bind_res (if ex
               then bind_res (np_linspace 0 tmax 100) (\<lambda>t_ex.
                    bind_res (ex_sol t_ex om x0 v0) (\<lambda>r. Inr (Some r)))
               else Inr None) (\<lambda>e.
       Inr (s2, e))))))"

text \<open>Cell 2: the damped oscillator, Euler-Cromer.\<close>

definition cell_damped :: "int \<Rightarrow> real \<Rightarrow> real \<Rightarrow> real \<Rightarrow> real \<Rightarrow> real \<Rightarrow> py_error + arrays" where
  "cell_damped N v0 ze om tmax x0 =
     bind_res (true_div tmax (real_of_int N)) (\<lambda>dt.
     bind_res (init_arrays N tmax x0 v0) (\<lambda>s0.
       for_range (loop_body EulerCromer (a_damped om ze) dt) (range0 N) s0))"

text \<open>
  Cell 3: the driven oscillator, Euler-Cromer, with \<open>tmax = 100 * np.pi/om_d\<close> and
  \<open>v[0] = 0\<close>.
\<close>

definition cell_driven :: "int \<Rightarrow> real \<Rightarrow> real \<Rightarrow> real \<Rightarrow> real \<Rightarrow> real \<Rightarrow> py_error + arrays" where
  "cell_driven N om ze om_d x0 a0 =
     bind_res (true_div (100 * pi) om_d) (\<lambda>tmax.
     bind_res (true_div tmax (real_of_int N)) (\<lambda>dt.
     bind_res (init_arrays N tmax x0 0) (\<lambda>s0.
       for_range (loop_body EulerCromer (a_driven dt om ze a0 om_d) dt) (range0 N) s0)))"

subsection \<open>Cell 1 in float64 arithmetic\<close>

text \<open>
  The floats of Python and of NumPy are IEEE binary64 numbers, and each arithmetic operation
  on them returns the exact result rounded to the nearest float64, a tie going to the even
  significand. \<open>round_half_even\<close> rounds a real number to an integer in this way.
\<close>

definition round_half_even :: "real \<Rightarrow> int" where
  "round_half_even q =
     (let n = \<lfloor>q\<rfloor>; r = q - of_int n
      in if r < 1 / 2 then n else if 1 / 2 < r then n + 1 else if even n then n else n + 1)"

text \<open>
  The exponent of the last place of the float64 values around \<open>x\<close>: a float64 has a
  significand of 53 bits, and below \<open>2\<^sup>-\<^sup>1\<^sup>0\<^sup>2\<^sup>2\<close> the spacing stays at \<open>2\<^sup>-\<^sup>1\<^sup>0\<^sup>7\<^sup>4\<close>.
\<close>

definition f64_exponent :: "real \<Rightarrow> int" where
  "f64_exponent x = max (\<lfloor>log 2 \<bar>x\<bar>\<rfloor> - 52) (- 1074)"

text \<open>
  The float64 nearest to \<open>x\<close>. A result of magnitude \<open>2\<^sup>1\<^sup>0\<^sup>2\<^sup>4\<close> or more, which is an
  infinity in the program, is outside this model, except in \<open>om**2\<close> below, where Python
  raises OverflowError.
\<close>

definition f64 :: "real \<Rightarrow> real" where
  "f64 x = (if x = 0 then 0
            else of_int (round_half_even (x / 2 powi f64_exponent x)) * 2 powi f64_exponent x)"

text \<open>The finite float64 values.\<close>

definition is_f64 :: "real \<Rightarrow> bool" where
  "is_f64 x \<longleftrightarrow> f64 x = x \<and> \<bar>x\<bar> < 2 ^ 1024"

text \<open>
  The definitions of cell 1 again, with every arithmetic result rounded. The numbers
  \<open>om\<close>, \<open>x0\<close>, \<open>v0\<close>, \<open>tmax\<close> are floats; \<open>N\<close> and the indices are integers, which
  convert to floats exactly (up to \<open>2\<^sup>5\<^sup>3\<close>). \<open>dt = tmax/N\<close>:
\<close>

definition true_div_f64 :: "real \<Rightarrow> real \<Rightarrow> py_error + real" where
  "true_div_f64 a b = (if b = 0 then Inl ZeroDivisionError else Inr (f64 (a / b)))"

text \<open>
  \<open>np.linspace\<close>: \<open>delta = stop - start\<close>, \<open>step = delta / div\<close>, \<open>y * step\<close> (or
  \<open>y / div\<close> and then \<open>* delta\<close>), \<open>y + start\<close> are float64 operations; the last entry is
  set to \<open>stop\<close> itself.
\<close>

definition np_linspace_f64 :: "real \<Rightarrow> real \<Rightarrow> int \<Rightarrow> py_error + real list" where
  "np_linspace_f64 start stop num =
     (if num < 0 then Inl ValueError
      else
        let n = nat num;
            dv = real_of_int (num - 1);
            delta = f64 (stop - start);
            y = map real [0..<n];
            y1 = (if 0 < dv
                  then (let step = f64 (delta / dv)
                        in if step = 0 then map (\<lambda>k. f64 (f64 (k / dv) * delta)) y
                           else map (\<lambda>k. f64 (k * step)) y)
                  else map (\<lambda>k. f64 (k * delta)) y);
            y2 = map (\<lambda>k. f64 (k + start)) y1;
            y3 = (if 1 < num then y2[n - 1 := stop] else y2)
        in Inr y3)"

text \<open>
  \<open>om**2\<close> on a Python float: the rounded square, and OverflowError when it is out of
  range.
\<close>

definition pow2_f64 :: "real \<Rightarrow> py_error + real" where
  "pow2_f64 om = (if 2 ^ 1024 \<le> \<bar>f64 (om ^ 2)\<bar> then Inl OverflowError else Inr (f64 (om ^ 2)))"

text \<open>\<open>-om**2 * x\<close>: the power, the sign (exact), then the rounded product.\<close>

definition acc_f64 :: "real \<Rightarrow> real \<Rightarrow> py_error + real" where
  "acc_f64 x om = bind_res (pow2_f64 om) (\<lambda>p. Inr (f64 (- p * x)))"

text \<open>\<open>a = acc(x[i], om)\<close>.\<close>

definition a_undamped_f64 :: "real \<Rightarrow> nat \<Rightarrow> arrays \<Rightarrow> py_error + real" where
  "a_undamped_f64 om i s = bind_res (getitem (arr_x s) i) (\<lambda>xi. acc_f64 xi om)"

text \<open>
  \<open>v[i+1] = v[i] + a * dt\<close> and \<open>x[i+1] = x[i] + v[i+1] * dt\<close> (or \<open>v[i]\<close>): a rounded
  product, then a rounded sum.
\<close>

definition loop_body_f64 ::
  "scheme \<Rightarrow> (nat \<Rightarrow> arrays \<Rightarrow> py_error + real) \<Rightarrow> real \<Rightarrow> nat \<Rightarrow> arrays \<Rightarrow> py_error + arrays" where
  "loop_body_f64 sch a_of dt i s =
     bind_res (a_of i s) (\<lambda>a.
     bind_res (getitem (arr_v s) i) (\<lambda>vi.
     bind_res (setitem (arr_v s) (i + 1) (f64 (vi + f64 (a * dt)))) (\<lambda>v'.
     bind_res (getitem (arr_x s) i) (\<lambda>xi.
     bind_res (getitem v' (case sch of Euler \<Rightarrow> i | EulerCromer \<Rightarrow> i + 1)) (\<lambda>vu.
     bind_res (setitem (arr_x s) (i + 1) (f64 (xi + f64 (vu * dt)))) (\<lambda>x'.
       Inr (s\<lparr>arr_x := x', arr_v := v'\<rparr>)))))))"

text \<open>The set-up of the arrays, with the rounded \<open>np.linspace\<close>.\<close>

definition init_arrays_f64 :: "int \<Rightarrow> real \<Rightarrow> real \<Rightarrow> real \<Rightarrow> py_error + arrays" where
  "init_arrays_f64 N tmax x0 v0 =
     bind_res (np_linspace_f64 0 tmax (N + 1)) (\<lambda>t.
     bind_res (np_zeros (N + 1)) (\<lambda>x.
     bind_res (np_zeros (N + 1)) (\<lambda>v.
     bind_res (setitem x 0 x0) (\<lambda>x'.
     bind_res (setitem v 0 v0) (\<lambda>v'.
       Inr \<lparr>arr_t = t, arr_x = x', arr_v = v'\<rparr>)))))"

text \<open>
  Cell 1 with \<open>ex = False\<close>, as the notebook sets it: the exact solution calls \<open>np.cos\<close>
  and \<open>np.sin\<close>, whose float64 results are those of the platform's library, and it does
  not touch \<open>t\<close>, \<open>x\<close>, \<open>v\<close>.
\<close>

definition cell_undamped_f64 ::
  "int \<Rightarrow> real \<Rightarrow> real \<Rightarrow> real \<Rightarrow> bool \<Rightarrow> bool \<Rightarrow> real \<Rightarrow> py_error + arrays" where
  "cell_undamped_f64 N om x0 v0 ec eu tmax =
     bind_res (true_div_f64 tmax (real_of_int N)) (\<lambda>dt.
     bind_res (init_arrays_f64 N tmax x0 v0) (\<lambda>s0.
     bind_res (if ec then for_range (loop_body_f64 EulerCromer (a_undamped_f64 om) dt) (range0 N) s0
               else Inr s0) (\<lambda>s1.
     bind_res (if eu then for_range (loop_body_f64 Euler (a_undamped_f64 om) dt) (range0 N) s1
               else Inr s1) (\<lambda>s2.
       Inr s2))))"

subsection \<open>Properties of a trajectory\<close>

text \<open>
  The arrays of a run with \<open>N\<close> steps: three arrays of \<open>N+1\<close> entries, the times on the
  grid \<open>i * (tmax/N)\<close>, the first position and velocity the initial conditions.
\<close>

definition trajectory_of :: "int \<Rightarrow> real \<Rightarrow> real \<Rightarrow> real \<Rightarrow> arrays \<Rightarrow> bool" where
  "trajectory_of N tmax x0 v0 s \<longleftrightarrow>
     length (arr_t s) = Suc (nat N) \<and> length (arr_x s) = Suc (nat N)
     \<and> length (arr_v s) = Suc (nat N)
     \<and> (\<forall>i\<le>nat N. arr_t s ! i = real i * (tmax / real_of_int N))
     \<and> arr_x s ! 0 = x0 \<and> arr_v s ! 0 = v0"

text \<open>
  The update rules of the two schemes, for the steps \<open>j < n\<close>, with the acceleration
  \<open>law j x v\<close> at step \<open>j\<close>.
\<close>

definition follows_scheme ::
  "scheme \<Rightarrow> (nat \<Rightarrow> real \<Rightarrow> real \<Rightarrow> real) \<Rightarrow> real \<Rightarrow> nat \<Rightarrow> arrays \<Rightarrow> bool" where
  "follows_scheme sch law dt n s \<longleftrightarrow>
     (\<forall>j<n. arr_v s ! Suc j = arr_v s ! j + law j (arr_x s ! j) (arr_v s ! j) * dt
           \<and> arr_x s ! Suc j = arr_x s ! j +
               (case sch of Euler \<Rightarrow> arr_v s ! j | EulerCromer \<Rightarrow> arr_v s ! Suc j) * dt)"

text \<open>
  The energy estimate of the specification at sample \<open>i\<close>, \<open>v\<^sub>i\<^sup>2 / 2 + om\<^sup>2 x\<^sub>i\<^sup>2 / 2\<close>
  (the notebook does not compute it).
\<close>

definition energy :: "real \<Rightarrow> arrays \<Rightarrow> nat \<Rightarrow> real" where
  "energy om s i = 1 / 2 * (arr_v s ! i) ^ 2 + 1 / 2 * om ^ 2 * (arr_x s ! i) ^ 2"

subsection \<open>Running a loop: what it returns and what it leaves alone\<close>

lemma bind_res_Inr: "bind_res (Inr y) f = f y"
  by (simp add: bind_res_def)

lemma bind_res_Inl: "bind_res (Inl e) f = Inl e"
  by (simp add: bind_res_def)

lemma for_range_append:
  "for_range body (js @ ks) s = bind_res (for_range body js s) (for_range body ks)"
  by (induction js arbitrary: s) (auto simp: bind_res_def split: sum.splits)

lemma loop_body_ok:
  assumes "Suc i < length (arr_x s)" "Suc i < length (arr_v s)" "a_of i s = Inr a"
  shows "loop_body sch a_of dt i s =
           Inr (s\<lparr>arr_x := (arr_x s)[Suc i := arr_x s ! i +
                      (case sch of Euler \<Rightarrow> arr_v s ! i | EulerCromer \<Rightarrow> arr_v s ! i + a * dt) * dt],
                  arr_v := (arr_v s)[Suc i := arr_v s ! i + a * dt]\<rparr>)"
  using assms
  by (cases sch) (simp_all add: loop_body_def bind_res_Inr getitem_def setitem_def)

lemma loop_from:
  assumes len: "length (arr_x s) = Suc M" "length (arr_v s) = Suc M"
    and law: "\<And>j u. j < length (arr_x u) \<Longrightarrow> j < length (arr_v u) \<Longrightarrow>
                a_of j u = Inr (law j (arr_x u ! j) (arr_v u ! j))"
    and le: "i \<le> n" "n \<le> M"
  shows "\<exists>s'. for_range (loop_body sch a_of dt) [i..<n] s = Inr s'
           \<and> arr_t s' = arr_t s
           \<and> length (arr_x s') = Suc M \<and> length (arr_v s') = Suc M
           \<and> (\<forall>k. k \<le> i \<or> n < k \<longrightarrow> arr_x s' ! k = arr_x s ! k \<and> arr_v s' ! k = arr_v s ! k)
           \<and> (\<forall>j. i \<le> j \<and> j < n \<longrightarrow>
                 arr_v s' ! Suc j = arr_v s' ! j + law j (arr_x s' ! j) (arr_v s' ! j) * dt
               \<and> arr_x s' ! Suc j = arr_x s' ! j +
                   (case sch of Euler \<Rightarrow> arr_v s' ! j | EulerCromer \<Rightarrow> arr_v s' ! Suc j) * dt)"
  using le
proof (induction n)
  case 0
  then show ?case using len by simp
next
  case (Suc n)
  show ?case
  proof (cases "i = Suc n")
    case True
    then show ?thesis using len by simp
  next
    case False
    with Suc.prems have le': "i \<le> n" "n \<le> M" "Suc n \<le> M" by simp_all
    from Suc.IH [OF le'(1,2)] obtain s' where
      run: "for_range (loop_body sch a_of dt) [i..<n] s = Inr s'"
      and t: "arr_t s' = arr_t s"
      and lx: "length (arr_x s') = Suc M" and lv: "length (arr_v s') = Suc M"
      and frame: "\<And>k. k \<le> i \<or> n < k \<Longrightarrow> arr_x s' ! k = arr_x s ! k \<and> arr_v s' ! k = arr_v s ! k"
      and rec: "\<And>j. i \<le> j \<Longrightarrow> j < n \<Longrightarrow>
                 arr_v s' ! Suc j = arr_v s' ! j + law j (arr_x s' ! j) (arr_v s' ! j) * dt
               \<and> arr_x s' ! Suc j = arr_x s' ! j +
                   (case sch of Euler \<Rightarrow> arr_v s' ! j | EulerCromer \<Rightarrow> arr_v s' ! Suc j) * dt"
      by blast
    define a where "a = law n (arr_x s' ! n) (arr_v s' ! n)"
    have a: "a_of n s' = Inr a"
      unfolding a_def using law [of n s'] lx lv le' by simp
    define s'' where "s'' = s'\<lparr>arr_x := (arr_x s')[Suc n := arr_x s' ! n +
                      (case sch of Euler \<Rightarrow> arr_v s' ! n | EulerCromer \<Rightarrow> arr_v s' ! n + a * dt) * dt],
                  arr_v := (arr_v s')[Suc n := arr_v s' ! n + a * dt]\<rparr>"
    have body: "loop_body sch a_of dt n s' = Inr s''"
      unfolding s''_def using loop_body_ok [of n s' a_of a sch dt] a lx lv le' by simp
    have upt: "[i..<Suc n] = [i..<n] @ [n]"
      using le' by simp
    have run': "for_range (loop_body sch a_of dt) [i..<Suc n] s = Inr s''"
      by (simp only: upt for_range_append run bind_res_Inr) (simp add: body)
    have x'': "\<And>k. k \<noteq> Suc n \<Longrightarrow> arr_x s'' ! k = arr_x s' ! k"
      and v'': "\<And>k. k \<noteq> Suc n \<Longrightarrow> arr_v s'' ! k = arr_v s' ! k"
      by (simp_all add: s''_def)
    have xn: "arr_x s'' ! Suc n = arr_x s' ! n +
                 (case sch of Euler \<Rightarrow> arr_v s' ! n | EulerCromer \<Rightarrow> arr_v s' ! n + a * dt) * dt"
      and vn: "arr_v s'' ! Suc n = arr_v s' ! n + a * dt"
      using lx lv le' by (simp_all add: s''_def)
    have frame'': "\<forall>k. k \<le> i \<or> Suc n < k \<longrightarrow>
                     arr_x s'' ! k = arr_x s ! k \<and> arr_v s'' ! k = arr_v s ! k"
    proof (intro allI impI)
      fix k assume k: "k \<le> i \<or> Suc n < k"
      with le' have "k \<noteq> Suc n" by auto
      moreover from k have "k \<le> i \<or> n < k" by auto
      ultimately show "arr_x s'' ! k = arr_x s ! k \<and> arr_v s'' ! k = arr_v s ! k"
        using x'' v'' frame by simp
    qed
    have rec'': "\<forall>j. i \<le> j \<and> j < Suc n \<longrightarrow>
                 arr_v s'' ! Suc j = arr_v s'' ! j + law j (arr_x s'' ! j) (arr_v s'' ! j) * dt
               \<and> arr_x s'' ! Suc j = arr_x s'' ! j +
                   (case sch of Euler \<Rightarrow> arr_v s'' ! j | EulerCromer \<Rightarrow> arr_v s'' ! Suc j) * dt"
    proof (intro allI impI)
      fix j assume j: "i \<le> j \<and> j < Suc n"
      show "arr_v s'' ! Suc j = arr_v s'' ! j + law j (arr_x s'' ! j) (arr_v s'' ! j) * dt
               \<and> arr_x s'' ! Suc j = arr_x s'' ! j +
                   (case sch of Euler \<Rightarrow> arr_v s'' ! j | EulerCromer \<Rightarrow> arr_v s'' ! Suc j) * dt"
      proof (cases "j = n")
        case True
        then show ?thesis
          using xn vn x'' [of n] v'' [of n] by (cases sch) (simp_all add: a_def)
      next
        case False
        with j have jn: "j < n" "i \<le> j" by simp_all
        then have "j \<noteq> Suc n" "Suc j \<noteq> Suc n" by simp_all
        then have e: "arr_x s'' ! j = arr_x s' ! j" "arr_v s'' ! j = arr_v s' ! j"
          "arr_x s'' ! Suc j = arr_x s' ! Suc j" "arr_v s'' ! Suc j = arr_v s' ! Suc j"
          using x'' v'' by simp_all
        show ?thesis
          unfolding e by (rule rec [OF jn(2,1)])
      qed
    qed
    have "arr_t s'' = arr_t s" "length (arr_x s'') = Suc M" "length (arr_v s'') = Suc M"
      using t lx lv by (simp_all add: s''_def)
    with run' frame'' rec'' show ?thesis by blast
  qed
qed

subsection \<open>The set-up of a cell\<close>

lemma a_undamped_law:
  "j < length (arr_x u) \<Longrightarrow> j < length (arr_v u) \<Longrightarrow>
     a_undamped om j u = Inr ((\<lambda>j x v. acc x om) j (arr_x u ! j) (arr_v u ! j))"
  by (simp add: a_undamped_def getitem_def bind_res_Inr)

lemma a_damped_law:
  "j < length (arr_x u) \<Longrightarrow> j < length (arr_v u) \<Longrightarrow>
     a_damped om ze j u = Inr ((\<lambda>j x v. acc_damped x v om (ze * om)) j (arr_x u ! j) (arr_v u ! j))"
  by (simp add: a_damped_def getitem_def bind_res_Inr)

lemma a_driven_law:
  "j < length (arr_x u) \<Longrightarrow> j < length (arr_v u) \<Longrightarrow>
     a_driven dt om ze a0 om_d j u =
       Inr ((\<lambda>j x v. acc_driven (real j * dt) x v om (ze * om) a0 om_d) j (arr_x u ! j) (arr_v u ! j))"
  by (simp add: a_driven_def getitem_def bind_res_Inr)

lemma np_linspace_grid:
  assumes "1 \<le> N"
  shows "\<exists>ts. np_linspace 0 tmax (N + 1) = Inr ts \<and> length ts = Suc (nat N)
           \<and> (\<forall>i\<le>nat N. ts ! i = real i * (tmax / real_of_int N))"
proof -
  define n where "n = nat N"
  have N: "N = int n" "0 < n" using assms by (simp_all add: n_def)
  define L where "L = (map (\<lambda>k. k + 0)
      (if tmax / real n = 0 then map (\<lambda>k. k / real n * tmax) (map real [0..<Suc n])
       else map (\<lambda>k. k * (tmax / real n)) (map real [0..<Suc n])))[n := tmax]"
  have run: "np_linspace 0 tmax (int n + 1) = Inr L"
    unfolding np_linspace_def L_def Let_def using N(2)
    by (simp del: upt_Suc add: nat_add_distrib)
  have len: "length L = Suc n"
    unfolding L_def by (simp del: upt_Suc)
  have nth: "L ! i = real i * (tmax / real n)" if "i \<le> n" for i
  proof (cases "i = n")
    case True
    then show ?thesis using N(2) len by (simp add: L_def del: upt_Suc)
  next
    case False
    with that have "i < n" by simp
    then show ?thesis
      unfolding L_def by (simp del: upt_Suc add: nth_map_upt)
  qed
  from run len nth show ?thesis unfolding n_def [symmetric] N(1) by simp
qed

lemma init_arrays_ok:
  assumes "1 \<le> N"
  shows "\<exists>s0. init_arrays N tmax x0 v0 = Inr s0
           \<and> length (arr_t s0) = Suc (nat N)
           \<and> (\<forall>i\<le>nat N. arr_t s0 ! i = real i * (tmax / real_of_int N))
           \<and> arr_x s0 = (replicate (Suc (nat N)) 0)[0 := x0]
           \<and> arr_v s0 = (replicate (Suc (nat N)) 0)[0 := v0]"
proof -
  from np_linspace_grid [OF assms, of tmax] obtain ts where
    ts: "np_linspace 0 tmax (N + 1) = Inr ts" "length ts = Suc (nat N)"
       "\<forall>i\<le>nat N. ts ! i = real i * (tmax / real_of_int N)" by blast
  have z: "np_zeros (N + 1) = Inr (replicate (Suc (nat N)) 0)"
    using assms by (simp add: np_zeros_def nat_add_distrib)
  have "init_arrays N tmax x0 v0 =
          Inr \<lparr>arr_t = ts, arr_x = (replicate (Suc (nat N)) 0)[0 := x0],
               arr_v = (replicate (Suc (nat N)) 0)[0 := v0]\<rparr>"
    unfolding init_arrays_def ts(1) z bind_res_Inr by (simp add: setitem_def bind_res_Inr)
  with ts show ?thesis by simp
qed

subsection \<open>A loop on the arrays of a cell\<close>

lemma init_arrays_trajectory:
  assumes "1 \<le> N"
  shows "\<exists>s0. init_arrays N tmax x0 v0 = Inr s0 \<and> trajectory_of N tmax x0 v0 s0"
proof -
  from init_arrays_ok [OF assms, of tmax x0 v0] obtain s0 where
    s0: "init_arrays N tmax x0 v0 = Inr s0" "length (arr_t s0) = Suc (nat N)"
      "\<forall>i\<le>nat N. arr_t s0 ! i = real i * (tmax / real_of_int N)"
      "arr_x s0 = (replicate (Suc (nat N)) 0)[0 := x0]"
      "arr_v s0 = (replicate (Suc (nat N)) 0)[0 := v0]" by blast
  then have "trajectory_of N tmax x0 v0 s0"
    unfolding trajectory_of_def by simp
  with s0(1) show ?thesis by blast
qed

lemma loop_trajectory:
  assumes tr: "trajectory_of N tmax x0 v0 s"
    and law: "\<And>j u. j < length (arr_x u) \<Longrightarrow> j < length (arr_v u) \<Longrightarrow>
                a_of j u = Inr (law j (arr_x u ! j) (arr_v u ! j))"
  shows "\<exists>s'. for_range (loop_body sch a_of dt) (range0 N) s = Inr s'
           \<and> trajectory_of N tmax x0 v0 s' \<and> follows_scheme sch law dt (nat N) s'"
proof -
  from tr have len: "length (arr_x s) = Suc (nat N)" "length (arr_v s) = Suc (nat N)"
    by (simp_all add: trajectory_of_def)
  from loop_from [of s "nat N" a_of law 0 "nat N" sch dt, OF len law]
  obtain s' where s':
    "for_range (loop_body sch a_of dt) [0..<nat N] s = Inr s'"
    "arr_t s' = arr_t s" "length (arr_x s') = Suc (nat N)" "length (arr_v s') = Suc (nat N)"
    "\<forall>k. k \<le> 0 \<or> nat N < k \<longrightarrow> arr_x s' ! k = arr_x s ! k \<and> arr_v s' ! k = arr_v s ! k"
    "\<forall>j. 0 \<le> j \<and> j < nat N \<longrightarrow>
        arr_v s' ! Suc j = arr_v s' ! j + law j (arr_x s' ! j) (arr_v s' ! j) * dt
      \<and> arr_x s' ! Suc j = arr_x s' ! j +
          (case sch of Euler \<Rightarrow> arr_v s' ! j | EulerCromer \<Rightarrow> arr_v s' ! Suc j) * dt"
    by auto
  from s'(5) have z: "arr_x s' ! 0 = arr_x s ! 0" "arr_v s' ! 0 = arr_v s ! 0" by simp_all
  have "trajectory_of N tmax x0 v0 s'"
    using tr s'(2,3,4) z unfolding trajectory_of_def by simp
  moreover have "follows_scheme sch law dt (nat N) s'"
    unfolding follows_scheme_def using s'(6) by simp
  ultimately show ?thesis using s'(1) by (auto simp: range0_def)
qed

lemma follows_scheme_unique:
  assumes "follows_scheme sch law dt n s" "follows_scheme sch law dt n u"
    and "arr_x s ! 0 = arr_x u ! 0" "arr_v s ! 0 = arr_v u ! 0"
  shows "k \<le> n \<Longrightarrow> arr_x s ! k = arr_x u ! k \<and> arr_v s ! k = arr_v u ! k"
proof (induction k)
  case 0
  then show ?case using assms by simp
next
  case (Suc k)
  then have k: "k < n" and eq: "arr_x s ! k = arr_x u ! k" "arr_v s ! k = arr_v u ! k"
    by simp_all
  from assms(1) k have
    a: "arr_v s ! Suc k = arr_v s ! k + law k (arr_x s ! k) (arr_v s ! k) * dt"
       "arr_x s ! Suc k = arr_x s ! k +
               (case sch of Euler \<Rightarrow> arr_v s ! k | EulerCromer \<Rightarrow> arr_v s ! Suc k) * dt"
    unfolding follows_scheme_def by simp_all
  from assms(2) k have
    b: "arr_v u ! Suc k = arr_v u ! k + law k (arr_x u ! k) (arr_v u ! k) * dt"
       "arr_x u ! Suc k = arr_x u ! k +
               (case sch of Euler \<Rightarrow> arr_v u ! k | EulerCromer \<Rightarrow> arr_v u ! Suc k) * dt"
    unfolding follows_scheme_def by simp_all
  have v: "arr_v s ! Suc k = arr_v u ! Suc k"
    unfolding a(1) b(1) eq by (rule refl)
  have "arr_x s ! Suc k = arr_x u ! Suc k"
    unfolding a(2) b(2) eq v by (rule refl)
  with v show ?case by simp
qed

lemma trajectory_eqI:
  assumes "trajectory_of N tmax x0 v0 s" "trajectory_of N tmax x0 v0 u"
    and "arr_t s = arr_t u"
    and "follows_scheme sch law dt (nat N) s" "follows_scheme sch law dt (nat N) u"
  shows "s = u"
proof -
  have z: "arr_x s ! 0 = arr_x u ! 0" "arr_v s ! 0 = arr_v u ! 0"
    using assms(1,2) by (simp_all add: trajectory_of_def)
  have len: "length (arr_x s) = Suc (nat N)" "length (arr_x u) = Suc (nat N)"
    "length (arr_v s) = Suc (nat N)" "length (arr_v u) = Suc (nat N)"
    using assms(1,2) by (simp_all add: trajectory_of_def)
  have nth: "arr_x s ! k = arr_x u ! k \<and> arr_v s ! k = arr_v u ! k" if "k \<le> nat N" for k
    using follows_scheme_unique [OF assms(4,5) z that] .
  have "arr_x s = arr_x u"
    by (rule nth_equalityI) (use len nth in simp_all)
  moreover have "arr_v s = arr_v u"
    by (rule nth_equalityI) (use len nth in simp_all)
  ultimately show ?thesis using assms(3) by simp
qed

subsection \<open>The three cells return a trajectory\<close>

lemma true_div_ok: "b \<noteq> 0 \<Longrightarrow> true_div a b = Inr (a / b)"
  by (simp add: true_div_def)

lemma ex_sol_ok:
  "om \<noteq> 0 \<Longrightarrow> ex_sol t om x0 v0 =
     Inr (map (\<lambda>\<tau>. x0 * cos (om * \<tau>) + v0 / om * sin (om * \<tau>)) t,
          map (\<lambda>\<tau>. - x0 * om * sin (om * \<tau>) + v0 * cos (om * \<tau>)) t)"
  by (simp add: ex_sol_def true_div_def bind_res_Inr)

lemma exact_part_ok:
  assumes "ex \<longrightarrow> om \<noteq> 0"
  shows "\<exists>e. (if ex then bind_res (np_linspace 0 tmax 100) (\<lambda>t_ex.
                    bind_res (ex_sol t_ex om x0 v0) (\<lambda>r. Inr (Some r)))
               else Inr None) = Inr e"
  using assms by (simp add: np_linspace_def Let_def bind_res_Inr ex_sol_ok)

lemma loop_undamped:
  assumes "trajectory_of N tmax x0 v0 s"
  shows "\<exists>s'. for_range (loop_body sch (a_undamped om) dt) (range0 N) s = Inr s'
           \<and> trajectory_of N tmax x0 v0 s'
           \<and> follows_scheme sch (\<lambda>j x v. acc x om) dt (nat N) s'"
  by (rule loop_trajectory [where law = "\<lambda>j x v. acc x om", OF assms])
    (rule a_undamped_law)

lemma loop_damped:
  assumes "trajectory_of N tmax x0 v0 s"
  shows "\<exists>s'. for_range (loop_body sch (a_damped om ze) dt) (range0 N) s = Inr s'
           \<and> trajectory_of N tmax x0 v0 s'
           \<and> follows_scheme sch (\<lambda>j x v. acc_damped x v om (ze * om)) dt (nat N) s'"
  by (rule loop_trajectory [where law = "\<lambda>j x v. acc_damped x v om (ze * om)", OF assms])
    (rule a_damped_law)

lemma loop_driven:
  assumes "trajectory_of N tmax x0 v0 s"
  shows "\<exists>s'. for_range (loop_body sch (a_driven dt' om ze a0 om_d) dt) (range0 N) s = Inr s'
           \<and> trajectory_of N tmax x0 v0 s'
           \<and> follows_scheme sch
                (\<lambda>j x v. acc_driven (real j * dt') x v om (ze * om) a0 om_d) dt (nat N) s'"
  by (rule loop_trajectory
        [where law = "\<lambda>j x v. acc_driven (real j * dt') x v om (ze * om) a0 om_d", OF assms])
    (rule a_driven_law)

lemma cell_undamped_ok:
  assumes N: "1 \<le> N" and ex: "ex \<longrightarrow> om \<noteq> 0"
  shows "\<exists>s e. cell_undamped N om x0 v0 ec eu ex tmax = Inr (s, e)
           \<and> trajectory_of N tmax x0 v0 s
           \<and> (eu \<longrightarrow> follows_scheme Euler (\<lambda>j x v. acc x om) (tmax / real_of_int N) (nat N) s)
           \<and> (ec \<and> \<not> eu \<longrightarrow>
                follows_scheme EulerCromer (\<lambda>j x v. acc x om) (tmax / real_of_int N) (nat N) s)"
proof -
  define dt where "dt = tmax / real_of_int N"
  have dt: "true_div tmax (real_of_int N) = Inr dt"
    unfolding dt_def using N by (simp add: true_div_ok)
  from init_arrays_trajectory [OF N, of tmax x0 v0] obtain s0 where
    s0: "init_arrays N tmax x0 v0 = Inr s0" "trajectory_of N tmax x0 v0 s0" by blast
  have "\<exists>s1. (if ec then for_range (loop_body EulerCromer (a_undamped om) dt) (range0 N) s0
               else Inr s0) = Inr s1 \<and> trajectory_of N tmax x0 v0 s1
             \<and> (ec \<longrightarrow> follows_scheme EulerCromer (\<lambda>j x v. acc x om) dt (nat N) s1)"
    using loop_undamped [OF s0(2), of EulerCromer om dt] s0(2)
    by (cases ec) auto
  then obtain s1 where
    s1: "(if ec then for_range (loop_body EulerCromer (a_undamped om) dt) (range0 N) s0
               else Inr s0) = Inr s1" "trajectory_of N tmax x0 v0 s1"
        "ec \<longrightarrow> follows_scheme EulerCromer (\<lambda>j x v. acc x om) dt (nat N) s1" by blast
  have "\<exists>s2. (if eu then for_range (loop_body Euler (a_undamped om) dt) (range0 N) s1
               else Inr s1) = Inr s2 \<and> trajectory_of N tmax x0 v0 s2
             \<and> (eu \<longrightarrow> follows_scheme Euler (\<lambda>j x v. acc x om) dt (nat N) s2)
             \<and> (\<not> eu \<longrightarrow> s2 = s1)"
    using loop_undamped [OF s1(2), of Euler om dt] s1(2)
    by (cases eu) auto
  then obtain s2 where
    s2: "(if eu then for_range (loop_body Euler (a_undamped om) dt) (range0 N) s1
               else Inr s1) = Inr s2" "trajectory_of N tmax x0 v0 s2"
        "eu \<longrightarrow> follows_scheme Euler (\<lambda>j x v. acc x om) dt (nat N) s2"
        "\<not> eu \<longrightarrow> s2 = s1" by blast
  from exact_part_ok [OF ex, of tmax x0 v0] obtain e where
    e: "(if ex then bind_res (np_linspace 0 tmax 100) (\<lambda>t_ex.
                    bind_res (ex_sol t_ex om x0 v0) (\<lambda>r. Inr (Some r)))
               else Inr None) = Inr e" by blast
  have "cell_undamped N om x0 v0 ec eu ex tmax = Inr (s2, e)"
    unfolding cell_undamped_def dt bind_res_Inr s0(1) s1(1) s2(1) e by (rule refl)
  with s1 s2 show ?thesis unfolding dt_def by auto
qed

lemma cell_damped_ok:
  assumes N: "1 \<le> N"
  shows "\<exists>s. cell_damped N v0 ze om tmax x0 = Inr s
           \<and> trajectory_of N tmax x0 v0 s
           \<and> follows_scheme EulerCromer (\<lambda>j x v. acc_damped x v om (ze * om))
                (tmax / real_of_int N) (nat N) s"
proof -
  define dt where "dt = tmax / real_of_int N"
  have dt: "true_div tmax (real_of_int N) = Inr dt"
    unfolding dt_def using N by (simp add: true_div_ok)
  from init_arrays_trajectory [OF N, of tmax x0 v0] obtain s0 where
    s0: "init_arrays N tmax x0 v0 = Inr s0" "trajectory_of N tmax x0 v0 s0" by blast
  from loop_damped [OF s0(2), of EulerCromer om ze dt] obtain s where
    s: "for_range (loop_body EulerCromer (a_damped om ze) dt) (range0 N) s0 = Inr s"
       "trajectory_of N tmax x0 v0 s"
       "follows_scheme EulerCromer (\<lambda>j x v. acc_damped x v om (ze * om)) dt (nat N) s"
    by blast
  have "cell_damped N v0 ze om tmax x0 = Inr s"
    unfolding cell_damped_def dt bind_res_Inr s0(1) s(1) by (rule refl)
  with s show ?thesis unfolding dt_def by blast
qed

lemma cell_driven_ok:
  assumes N: "1 \<le> N" and om_d: "om_d \<noteq> 0"
  shows "\<exists>s. cell_driven N om ze om_d x0 a0 = Inr s
           \<and> trajectory_of N (100 * pi / om_d) x0 0 s
           \<and> follows_scheme EulerCromer
                (\<lambda>j x v. acc_driven (real j * (100 * pi / om_d / real_of_int N)) x v om (ze * om) a0 om_d)
                (100 * pi / om_d / real_of_int N) (nat N) s"
proof -
  define tmax where "tmax = 100 * pi / om_d"
  define dt where "dt = tmax / real_of_int N"
  have tmax: "true_div (100 * pi) om_d = Inr tmax"
    unfolding tmax_def using om_d by (simp add: true_div_ok)
  have dt: "true_div tmax (real_of_int N) = Inr dt"
    unfolding dt_def using N by (simp add: true_div_ok)
  from init_arrays_trajectory [OF N, of tmax x0 0] obtain s0 where
    s0: "init_arrays N tmax x0 0 = Inr s0" "trajectory_of N tmax x0 0 s0" by blast
  from loop_driven [OF s0(2), of EulerCromer dt om ze a0 om_d dt] obtain s where
    s: "for_range (loop_body EulerCromer (a_driven dt om ze a0 om_d) dt) (range0 N) s0 = Inr s"
       "trajectory_of N tmax x0 0 s"
       "follows_scheme EulerCromer
          (\<lambda>j x v. acc_driven (real j * dt) x v om (ze * om) a0 om_d) dt (nat N) s"
    by blast
  have "cell_driven N om ze om_d x0 a0 = Inr s"
    unfolding cell_driven_def tmax dt bind_res_Inr s0(1) s(1) by (rule refl)
  with s show ?thesis unfolding dt_def tmax_def by blast
qed

subsection \<open>Evaluating a cell, and further facts about trajectories\<close>

lemmas cell_eval =
  cell_undamped_def cell_damped_def cell_driven_def init_arrays_def np_linspace_def np_zeros_def
  true_div_def bind_res_def loop_body_def a_undamped_def a_damped_def a_driven_def getitem_def
  setitem_def range0_def Let_def


lemma loop_body_frame:
  assumes len: "length (arr_x s) = Suc M" "length (arr_v s) = Suc M" and i: "i < M"
    and law: "\<And>j u. j < length (arr_x u) \<Longrightarrow> j < length (arr_v u) \<Longrightarrow>
                a_of j u = Inr (law j (arr_x u ! j) (arr_v u ! j))"
  shows "\<exists>s1. loop_body sch a_of dt i s = Inr s1 \<and> arr_t s1 = arr_t s
           \<and> (\<forall>k. k \<noteq> Suc i \<longrightarrow> arr_x s1 ! k = arr_x s ! k \<and> arr_v s1 ! k = arr_v s ! k)"
proof -
  have a: "a_of i s = Inr (law i (arr_x s ! i) (arr_v s ! i))"
    using law [of i s] len i by simp
  have "Suc i < length (arr_x s)" "Suc i < length (arr_v s)" using len i by simp_all
  from loop_body_ok [where a_of = a_of and i = i and s = s and sch = sch and dt = dt, OF this a]
  show ?thesis by simp
qed

lemma loop_frame:
  assumes len: "length (arr_x s) = Suc M" "length (arr_v s) = Suc M" and i: "i < M"
    and law: "\<And>j u. j < length (arr_x u) \<Longrightarrow> j < length (arr_v u) \<Longrightarrow>
                a_of j u = Inr (law j (arr_x u ! j) (arr_v u ! j))"
  shows "(\<exists>s1. loop_body sch a_of dt i s = Inr s1 \<and> arr_t s1 = arr_t s
           \<and> (\<forall>k. k \<noteq> Suc i \<longrightarrow> arr_x s1 ! k = arr_x s ! k \<and> arr_v s1 ! k = arr_v s ! k))
       \<and> (\<forall>n. i \<le> n \<and> n \<le> M \<longrightarrow>
            (\<exists>s'. for_range (loop_body sch a_of dt) [i..<n] s = Inr s' \<and> arr_t s' = arr_t s
               \<and> (\<forall>k\<le>i. arr_x s' ! k = arr_x s ! k \<and> arr_v s' ! k = arr_v s ! k)))"
proof (intro conjI allI impI)
  show "\<exists>s1. loop_body sch a_of dt i s = Inr s1 \<and> arr_t s1 = arr_t s
           \<and> (\<forall>k. k \<noteq> Suc i \<longrightarrow> arr_x s1 ! k = arr_x s ! k \<and> arr_v s1 ! k = arr_v s ! k)"
    by (rule loop_body_frame [where a_of = a_of and law = law, OF len i law])
next
  fix n assume n: "i \<le> n \<and> n \<le> M"
  then have le: "i \<le> n" "n \<le> M" by simp_all
  from loop_from [where a_of = a_of and law = law and sch = sch and dt = dt, OF len law le]
  obtain s' where "for_range (loop_body sch a_of dt) [i..<n] s = Inr s'" "arr_t s' = arr_t s"
    "\<forall>k. k \<le> i \<or> n < k \<longrightarrow> arr_x s' ! k = arr_x s ! k \<and> arr_v s' ! k = arr_v s ! k"
    by blast
  then show "\<exists>s'. for_range (loop_body sch a_of dt) [i..<n] s = Inr s' \<and> arr_t s' = arr_t s
               \<and> (\<forall>k\<le>i. arr_x s' ! k = arr_x s ! k \<and> arr_v s' ! k = arr_v s ! k)"
    by blast
qed

lemma trajectory_t_eq:
  assumes "trajectory_of N tmax x0 v0 s" "trajectory_of N tmax x0 v0 u"
  shows "arr_t s = arr_t u"
  by (rule nth_equalityI) (use assms in \<open>simp_all add: trajectory_of_def less_Suc_eq_le\<close>)

lemma init_arrays_negative:
  "N = - 1 \<Longrightarrow> init_arrays N tmax x0 v0 = Inl IndexError"
  "N < - 1 \<Longrightarrow> init_arrays N tmax x0 v0 = Inl ValueError"
  by (simp_all add: init_arrays_def np_linspace_def np_zeros_def setitem_def bind_res_def Let_def)

lemma cell_undamped_split:
  assumes N: "1 \<le> N"
  shows "\<exists>s. trajectory_of N tmax x0 v0 s
           \<and> (eu \<longrightarrow> follows_scheme Euler (\<lambda>j x v. acc x om) (tmax / real_of_int N) (nat N) s)
           \<and> cell_undamped N om x0 v0 ec eu ex tmax =
               bind_res (if ex
                         then bind_res (np_linspace 0 tmax 100) (\<lambda>t_ex.
                              bind_res (ex_sol t_ex om x0 v0) (\<lambda>r. Inr (Some r)))
                         else Inr None) (\<lambda>e. Inr (s, e))"
proof -
  define dt where "dt = tmax / real_of_int N"
  have dt: "true_div tmax (real_of_int N) = Inr dt"
    unfolding dt_def using N by (simp add: true_div_ok)
  from init_arrays_trajectory [OF N, of tmax x0 v0] obtain s0 where
    s0: "init_arrays N tmax x0 v0 = Inr s0" "trajectory_of N tmax x0 v0 s0" by blast
  have "\<exists>s1. (if ec then for_range (loop_body EulerCromer (a_undamped om) dt) (range0 N) s0
               else Inr s0) = Inr s1 \<and> trajectory_of N tmax x0 v0 s1"
    using loop_undamped [OF s0(2), of EulerCromer om dt] s0(2)
    by (cases ec) auto
  then obtain s1 where
    s1: "(if ec then for_range (loop_body EulerCromer (a_undamped om) dt) (range0 N) s0
               else Inr s0) = Inr s1" "trajectory_of N tmax x0 v0 s1" by blast
  have "\<exists>s2. (if eu then for_range (loop_body Euler (a_undamped om) dt) (range0 N) s1
               else Inr s1) = Inr s2 \<and> trajectory_of N tmax x0 v0 s2
             \<and> (eu \<longrightarrow> follows_scheme Euler (\<lambda>j x v. acc x om) dt (nat N) s2)"
    using loop_undamped [OF s1(2), of Euler om dt] s1(2)
    by (cases eu) auto
  then obtain s2 where
    s2: "(if eu then for_range (loop_body Euler (a_undamped om) dt) (range0 N) s1
               else Inr s1) = Inr s2" "trajectory_of N tmax x0 v0 s2"
        "eu \<longrightarrow> follows_scheme Euler (\<lambda>j x v. acc x om) dt (nat N) s2" by blast
  have "cell_undamped N om x0 v0 ec eu ex tmax =
               bind_res (if ex
                         then bind_res (np_linspace 0 tmax 100) (\<lambda>t_ex.
                              bind_res (ex_sol t_ex om x0 v0) (\<lambda>r. Inr (Some r)))
                         else Inr None) (\<lambda>e. Inr (s2, e))"
    unfolding cell_undamped_def dt bind_res_Inr s0(1) s1(1) s2(1) by (rule refl)
  with s2(2,3) show ?thesis unfolding dt_def by blast
qed

lemma cell_undamped_not_started:
  assumes "N < 1"
  shows "cell_undamped N om x0 v0 ec eu ex tmax =
           (if N = 0 then Inl ZeroDivisionError
            else if N = - 1 then Inl IndexError else Inl ValueError)"
proof -
  consider "N = 0" | "N = - 1" | "N < - 1" using assms by linarith
  then show ?thesis
  proof cases
    case 1
    then show ?thesis by (simp add: cell_undamped_def true_div_def bind_res_Inl)
  next
    case 2
    then have "true_div tmax (real_of_int N) = Inr (tmax / real_of_int N)"
      by (simp add: true_div_def)
    with 2 init_arrays_negative(1) [OF 2, of tmax x0 v0] show ?thesis
      by (simp add: cell_undamped_def bind_res_Inl bind_res_Inr)
  next
    case 3
    then have "true_div tmax (real_of_int N) = Inr (tmax / real_of_int N)"
      by (simp add: true_div_def)
    with 3 init_arrays_negative(2) [OF 3, of tmax x0 v0] show ?thesis
      by (simp add: cell_undamped_def bind_res_Inl bind_res_Inr)
  qed
qed

lemma euler_energy_step:
  assumes "follows_scheme Euler (\<lambda>j x v. acc x om) dt n s" and "j < n"
  shows "energy om s (Suc j) = (1 + om\<^sup>2 * dt\<^sup>2) * energy om s j"
proof -
  from assms have v: "arr_v s ! Suc j = arr_v s ! j + acc (arr_x s ! j) om * dt"
    and x: "arr_x s ! Suc j = arr_x s ! j + arr_v s ! j * dt"
    unfolding follows_scheme_def by simp_all
  show ?thesis
    unfolding energy_def v x acc_def by (simp add: power2_eq_square field_simps)
qed

lemma euler_energy_positive:
  assumes "follows_scheme Euler (\<lambda>j x v. acc x om) dt n s" and "0 < energy om s 0"
  shows "j \<le> n \<Longrightarrow> 0 < energy om s j"
proof (induction j)
  case 0
  then show ?case using assms(2) by simp
next
  case (Suc j)
  then have "0 < energy om s j" "j < n" by simp_all
  moreover have "0 < 1 + om\<^sup>2 * dt\<^sup>2"
    by (rule add_pos_nonneg) simp_all
  ultimately show ?case
    unfolding euler_energy_step [OF assms(1) \<open>j < n\<close>] by (rule_tac mult_pos_pos)
qed

lemma euler_energy_grows:
  assumes "follows_scheme Euler (\<lambda>j x v. acc x om) dt n s" and "0 < energy om s 0"
    and "om \<noteq> 0" and "dt \<noteq> 0" and "j < n"
  shows "energy om s j < energy om s (Suc j)"
proof -
  have pos: "0 < energy om s j"
    using euler_energy_positive [OF assms(1,2), of j] assms(5) by simp
  have "0 < om\<^sup>2 * dt\<^sup>2" using assms(3,4) by simp
  then have "0 < om\<^sup>2 * dt\<^sup>2 * energy om s j" using pos by (rule mult_pos_pos)
  then show ?thesis
    unfolding euler_energy_step [OF assms(1,5)] by (simp add: algebra_simps)
qed

lemma euler_cromer_shadow_step:
  assumes "follows_scheme EulerCromer (\<lambda>j x v. acc x om) dt n s" and "j < n"
  shows "energy om s (Suc j) - 1 / 2 * dt * om\<^sup>2 * (arr_x s ! Suc j) * (arr_v s ! Suc j)
       = energy om s j - 1 / 2 * dt * om\<^sup>2 * (arr_x s ! j) * (arr_v s ! j)"
proof -
  from assms have v: "arr_v s ! Suc j = arr_v s ! j + acc (arr_x s ! j) om * dt"
    and x: "arr_x s ! Suc j = arr_x s ! j + arr_v s ! Suc j * dt"
    unfolding follows_scheme_def by simp_all
  show ?thesis
    unfolding energy_def x v acc_def by (simp add: power2_eq_square field_simps)
qed

lemma euler_cromer_shadow_constant:
  assumes "follows_scheme EulerCromer (\<lambda>j x v. acc x om) dt n s"
  shows "j \<le> n \<Longrightarrow>
         energy om s j - 1 / 2 * dt * om\<^sup>2 * (arr_x s ! j) * (arr_v s ! j)
       = energy om s 0 - 1 / 2 * dt * om\<^sup>2 * (arr_x s ! 0) * (arr_v s ! 0)"
proof (induction j)
  case 0
  show ?case by (rule refl)
next
  case (Suc j)
  then have j: "j < n" "j \<le> n" by simp_all
  show ?case
    unfolding euler_cromer_shadow_step [OF assms j(1)] by (rule Suc.IH [OF j(2)])
qed

lemma energy_band:
  fixes x v :: real
  assumes "1 / 2 * v\<^sup>2 + 1 / 2 * 5\<^sup>2 * x\<^sup>2 - 1 / 2 * (1 / 20) * 5\<^sup>2 * x * v = 225 / 16"
  shows "25 / 2 \<le> 1 / 2 * v\<^sup>2 + 1 / 2 * 5\<^sup>2 * x\<^sup>2
       \<and> 1 / 2 * v\<^sup>2 + 1 / 2 * 5\<^sup>2 * x\<^sup>2 \<le> 225 / 14"
proof -
  have a: "0 \<le> (v - 5 * x)\<^sup>2" and b: "0 \<le> (v + 5 * x)\<^sup>2" by simp_all
  from a have a': "0 \<le> v * v - 10 * (x * v) + 25 * (x * x)"
    by (simp add: power2_eq_square algebra_simps)
  from b have b': "0 \<le> v * v + 10 * (x * v) + 25 * (x * x)"
    by (simp add: power2_eq_square algebra_simps)
  from assms have c: "1 / 2 * (v * v) + 25 / 2 * (x * x) - 5 / 8 * (x * v) = 225 / 16"
    by (simp add: power2_eq_square algebra_simps)
  have "25 / 2 \<le> 1 / 2 * (v * v) + 25 / 2 * (x * x)"
    using a' b' c by linarith
  moreover have "1 / 2 * (v * v) + 25 / 2 * (x * x) \<le> 225 / 14"
    using a' b' c by linarith
  ultimately show ?thesis by (simp add: power2_eq_square)
qed

subsection \<open>Rounding to float64, and cell 1 in float64 arithmetic\<close>

lemma floor_log2_powi:
  assumes "2 powi k \<le> x" "x < 2 powi (k + 1)"
  shows "\<lfloor>log 2 x\<rfloor> = k"
proof -
  have "0 < (2::real) powi k" by simp
  with assms(1) have x: "0 < x" by linarith
  have "(2::real) powr (real_of_int k) = 2 powi k" "(2::real) powr (real_of_int (k + 1)) = 2 powi (k + 1)"
    by (simp_all add: powr_real_of_int' del: of_int_add)
  with assms show ?thesis
    using floor_log_eq_powr_iff [of x 2 k] x by simp
qed

lemma f64_exponent_eq:
  assumes "2 powi k \<le> \<bar>x\<bar>" "\<bar>x\<bar> < 2 powi (k + 1)"
  shows "f64_exponent x = max (k - 52) (- 1074)"
  unfolding f64_exponent_def floor_log2_powi [OF assms] by (rule refl)

lemma round_half_even_of_int: "round_half_even (of_int k) = k"
  by (simp add: round_half_even_def)

lemma f64_zero: "f64 0 = 0"
  by (simp add: f64_def)

lemma f64_exponent_le:
  assumes "x \<noteq> 0" "\<bar>x\<bar> < 2 powi (e + 53)" "- 1074 \<le> e"
  shows "f64_exponent x \<le> e"
proof -
  have x: "0 < \<bar>x\<bar>" using assms(1) by simp
  have "(2::real) powr (real_of_int (e + 53)) = 2 powi (e + 53)"
    by (simp add: powr_real_of_int' del: of_int_add)
  with assms(2) have "log 2 \<bar>x\<bar> < real_of_int (e + 53)"
    using log_less_iff [of 2 "\<bar>x\<bar>" "real_of_int (e + 53)"] x by simp
  then have "\<lfloor>log 2 \<bar>x\<bar>\<rfloor> < e + 53" by (simp only: floor_less_iff)
  with assms(3) show ?thesis unfolding f64_exponent_def by simp
qed

lemma f64_of_multiple:
  assumes "x \<noteq> 0" and "x = of_int n * 2 powi f64_exponent x"
  shows "f64 x = x"
proof -
  have "x / 2 powi f64_exponent x = of_int n"
    by (subst assms(2)) simp
  then have "round_half_even (x / 2 powi f64_exponent x) = n"
    by (simp only: round_half_even_of_int)
  then show ?thesis unfolding f64_def using assms by simp
qed

lemma f64_representable:
  assumes "\<bar>m\<bar> < 2 ^ 53" "- 1074 \<le> e"
  shows "f64 (of_int m * 2 powi e) = of_int m * 2 powi e"
proof (cases "m = 0")
  case True
  then show ?thesis by (simp add: f64_zero)
next
  case False
  define x :: real where "x = of_int m * 2 powi e"
  have x0: "x \<noteq> 0" using False by (simp add: x_def)
  have "\<bar>x\<bar> = of_int \<bar>m\<bar> * 2 powi e" by (simp add: x_def abs_mult)
  also have "\<dots> < 2 ^ 53 * 2 powi e"
  proof (rule mult_strict_right_mono)
    from assms(1) have "real_of_int \<bar>m\<bar> < real_of_int (2 ^ 53)" by (simp only: of_int_less_iff)
    then show "real_of_int \<bar>m\<bar> < 2 ^ 53" by simp
  qed simp
  also have "\<dots> = 2 powi (e + 53)"
    by (simp add: power_int_add)
  finally have "\<bar>x\<bar> < 2 powi (e + 53)" .
  from f64_exponent_le [OF x0 this assms(2)] have d: "f64_exponent x \<le> e" .
  define c where "c = f64_exponent x"
  define k where "k = nat (e - c)"
  have e: "e = c + int k" using d by (simp add: k_def c_def)
  have "(2::real) powi e = 2 powi c * 2 ^ k"
    by (subst e) (simp add: power_int_add)
  then have "of_int m * 2 powi e = of_int (m * 2 ^ k) * (2::real) powi c"
    by simp
  then have "x = of_int (m * 2 ^ k) * 2 powi f64_exponent x"
    unfolding c_def by (simp only: x_def)
  from f64_of_multiple [OF x0 this] show ?thesis unfolding x_def .
qed

lemma f64_one: "f64 1 = 1"
  using f64_representable [of 1 0] by simp

lemma f64_minus_one: "f64 (- 1) = - 1"
  using f64_representable [of "- 1" 0] by simp

lemma f64_half: "f64 (1 / 2) = 1 / 2"
  using f64_representable [of 1 "- 1"] by (simp add: power_int_minus)




lemma f64_p1074: "f64 (1 / 2 ^ 1074) = 1 / 2 ^ 1074"
  using f64_representable [of 1 "- 1074"] by (simp add: power_int_minus field_simps)


lemma f64_underflow: "f64 (1 / 2 ^ 1075) = 0"
proof -
  have "2 powi (- 1075) \<le> \<bar>1 / 2 ^ 1075 :: real\<bar>" "\<bar>1 / 2 ^ 1075 :: real\<bar> < 2 powi (- 1075 + 1)"
    by (simp_all add: power_int_minus field_simps)
  from f64_exponent_eq [OF this] have e: "f64_exponent (1 / 2 ^ 1075) = - 1074" by simp
  have q: "(1 / 2 ^ 1075) / 2 powi (- 1074) = (1 / 2 :: real)"
    by (simp add: power_int_minus field_simps)
  have "round_half_even ((1 / 2 ^ 1075) / 2 powi (- 1074)) = 0"
    unfolding q round_half_even_def Let_def by simp
  then show ?thesis
    unfolding f64_def e by simp
qed

lemmas cell_f64_eval =
  cell_undamped_f64_def init_arrays_f64_def np_linspace_f64_def np_zeros_def true_div_f64_def
  bind_res_def loop_body_f64_def a_undamped_f64_def acc_f64_def pow2_f64_def getitem_def
  setitem_def range0_def Let_def

lemma round_half_even_bounds:
  "\<lfloor>q\<rfloor> \<le> round_half_even q" "round_half_even q \<le> \<lfloor>q\<rfloor> + 1"
  by (simp_all add: round_half_even_def Let_def)

lemma f64_exponent_ge: "- 1074 \<le> f64_exponent x"
  by (simp add: f64_exponent_def)

lemma f64_quotient_bound:
  assumes "x \<noteq> 0"
  shows "\<bar>x / 2 powi f64_exponent x\<bar> < 2 ^ 53"
proof -
  define L where "L = \<lfloor>log 2 \<bar>x\<bar>\<rfloor>"
  have x: "0 < \<bar>x\<bar>" using assms by simp
  have "\<bar>x\<bar> < 2 powr (real_of_int (L + 1))"
    using floor_log_eq_powr_iff [of "\<bar>x\<bar>" 2 L] x by (simp add: L_def)
  also have "\<dots> = 2 powi (L + 1)"
    by (simp add: powr_real_of_int' del: of_int_add)
  finally have up: "\<bar>x\<bar> < 2 powi (L + 1)" .
  have "L + 1 \<le> f64_exponent x + 53"
    by (simp add: f64_exponent_def L_def)
  then have "(2::real) powi (L + 1) \<le> 2 powi (f64_exponent x + 53)"
    by (intro power_int_increasing) simp_all
  also have "\<dots> = 2 ^ 53 * 2 powi f64_exponent x"
    by (simp add: power_int_add)
  finally have "\<bar>x\<bar> < 2 ^ 53 * 2 powi f64_exponent x" using up by linarith
  then have "\<bar>x\<bar> / 2 powi f64_exponent x < 2 ^ 53"
    by (simp add: pos_divide_less_eq)
  then show ?thesis by (simp add: abs_divide)
qed

lemma f64_idem: "f64 (f64 x) = f64 x"
proof (cases "x = 0")
  case True
  then show ?thesis by (simp add: f64_zero)
next
  case False
  define d where "d = f64_exponent x"
  define q where "q = x / 2 powi d"
  define n where "n = round_half_even q"
  have fx: "f64 x = of_int n * 2 powi d"
    using False by (simp add: f64_def n_def q_def d_def)
  have d: "- 1074 \<le> d" unfolding d_def by (rule f64_exponent_ge)
  have "\<bar>q\<bar> < 2 ^ 53" unfolding q_def d_def by (rule f64_quotient_bound [OF False])
  then have "q < 2 ^ 53" "- (2 ^ 53) < q" by (simp_all add: abs_less_iff)
  then have "\<lfloor>q\<rfloor> < 2 ^ 53" "- (2 ^ 53) \<le> \<lfloor>q\<rfloor>"
    by (simp_all add: floor_less_iff le_floor_iff)
  with round_half_even_bounds [of q] have n: "n \<le> 2 ^ 53" "- (2 ^ 53) \<le> n"
    unfolding n_def by linarith+
  consider "\<bar>n\<bar> < 2 ^ 53" | "n = 2 ^ 53" | "n = - (2 ^ 53)"
    using n by linarith
  then show ?thesis
  proof cases
    case 1
    from f64_representable [OF 1 d] show ?thesis unfolding fx .
  next
    case 2
    have "of_int n * (2::real) powi d = of_int 1 * 2 powi (d + 53)"
      unfolding 2 by (simp add: power_int_add)
    moreover have "f64 (of_int 1 * 2 powi (d + 53)) = of_int 1 * 2 powi (d + 53)"
      by (rule f64_representable) (use d in simp_all)
    ultimately show ?thesis unfolding fx by simp
  next
    case 3
    have "of_int n * (2::real) powi d = of_int (- 1) * 2 powi (d + 53)"
      unfolding 3 by (simp add: power_int_add)
    moreover have "f64 (of_int (- 1) * 2 powi (d + 53)) = of_int (- 1) * 2 powi (d + 53)"
      by (rule f64_representable) (use d in simp_all)
    ultimately show ?thesis unfolding fx by simp
  qed
qed

lemma np_linspace_f64_grid:
  assumes "1 \<le> N" and "f64 tmax = tmax"
  shows "\<exists>ts. np_linspace_f64 0 tmax (N + 1) = Inr ts \<and> length ts = Suc (nat N)
           \<and> ts ! 0 = 0 \<and> ts ! nat N = tmax
           \<and> (\<forall>i<nat N. ts ! i =
                 (if f64 (tmax / real_of_int N) = 0
                  then f64 (f64 (real i / real_of_int N) * tmax)
                  else f64 (real i * f64 (tmax / real_of_int N))))"
proof -
  define n where "n = nat N"
  have N: "N = int n" "0 < n" using assms(1) by (simp_all add: n_def)
  define g where "g = (\<lambda>k::real. if f64 (tmax / real n) = 0
                  then f64 (f64 (k / real n) * tmax) else f64 (k * f64 (tmax / real n)))"
  define L where "L = (map (\<lambda>k. f64 (k + 0)) (map g (map real [0..<Suc n])))[n := tmax]"
  have run: "np_linspace_f64 0 tmax (int n + 1) = Inr L"
    unfolding np_linspace_f64_def L_def Let_def g_def using N(2) assms(2)
    by (simp del: upt_Suc add: nat_add_distrib)
  have len: "length L = Suc n"
    unfolding L_def by (simp del: upt_Suc)
  have gi: "f64 (g k) = g k" for k
    unfolding g_def by (simp add: f64_idem)
  have nth: "L ! i = g (real i)" if "i < n" for i
    using that unfolding L_def by (simp del: upt_Suc add: nth_map_upt gi)
  have last: "L ! n = tmax"
    using len unfolding L_def by (simp del: upt_Suc)
  have "g 0 = 0" unfolding g_def by (simp add: f64_zero)
  with nth [of 0] N(2) have zero: "L ! 0 = 0" by simp
  from run len nth last zero show ?thesis
    unfolding n_def [symmetric] N(1) g_def by simp
qed

lemma loop_body_f64_ok:
  assumes "Suc i < length (arr_x s)" "Suc i < length (arr_v s)" "a_of i s = Inr a"
  shows "loop_body_f64 sch a_of dt i s =
           Inr (s\<lparr>arr_x := (arr_x s)[Suc i := f64 (arr_x s ! i + f64
                      ((case sch of Euler \<Rightarrow> arr_v s ! i
                        | EulerCromer \<Rightarrow> f64 (arr_v s ! i + f64 (a * dt))) * dt))],
                  arr_v := (arr_v s)[Suc i := f64 (arr_v s ! i + f64 (a * dt))]\<rparr>)"
  using assms
  by (cases sch) (simp_all add: loop_body_f64_def bind_res_Inr getitem_def setitem_def)

lemma a_undamped_f64_ok:
  assumes "\<bar>f64 (om\<^sup>2)\<bar> < 2 ^ 1024" and "i < length (arr_x s)"
  shows "a_undamped_f64 om i s = Inr (f64 (- f64 (om\<^sup>2) * arr_x s ! i))"
  using assms
  by (simp add: a_undamped_f64_def acc_f64_def pow2_f64_def getitem_def bind_res_Inr)

lemma loop_f64_frame:
  assumes len: "length (arr_x s) = Suc M" "length (arr_v s) = Suc M"
    and a: "\<And>j u. j < length (arr_x u) \<Longrightarrow> \<exists>a. a_of j u = Inr a"
    and le: "i \<le> n" "n \<le> M"
  shows "\<exists>s'. for_range (loop_body_f64 sch a_of dt) [i..<n] s = Inr s'
           \<and> arr_t s' = arr_t s
           \<and> length (arr_x s') = Suc M \<and> length (arr_v s') = Suc M
           \<and> (\<forall>k\<le>i. arr_x s' ! k = arr_x s ! k \<and> arr_v s' ! k = arr_v s ! k)"
  using le
proof (induction n)
  case 0
  then show ?case using len by simp
next
  case (Suc n)
  show ?case
  proof (cases "i = Suc n")
    case True
    then show ?thesis using len by simp
  next
    case False
    with Suc.prems have le': "i \<le> n" "n \<le> M" "Suc n \<le> M" by simp_all
    from Suc.IH [OF le'(1,2)] obtain s' where
      run: "for_range (loop_body_f64 sch a_of dt) [i..<n] s = Inr s'"
      and t: "arr_t s' = arr_t s"
      and lx: "length (arr_x s') = Suc M" and lv: "length (arr_v s') = Suc M"
      and frame: "\<And>k. k \<le> i \<Longrightarrow> arr_x s' ! k = arr_x s ! k \<and> arr_v s' ! k = arr_v s ! k"
      by blast
    from a [of n s'] lx le' obtain c where c: "a_of n s' = Inr c" by auto
    have sn: "Suc n < length (arr_x s')" "Suc n < length (arr_v s')" using lx lv le' by simp_all
    note body = loop_body_f64_ok [where a_of = a_of and i = n and s = s' and sch = sch and dt = dt,
        OF sn c]
    define s'' where "s'' = s'\<lparr>arr_x := (arr_x s')[Suc n := f64 (arr_x s' ! n + f64
                      ((case sch of Euler \<Rightarrow> arr_v s' ! n
                        | EulerCromer \<Rightarrow> f64 (arr_v s' ! n + f64 (c * dt))) * dt))],
                  arr_v := (arr_v s')[Suc n := f64 (arr_v s' ! n + f64 (c * dt))]\<rparr>"
    have upt: "[i..<Suc n] = [i..<n] @ [n]" using le' by simp
    have run': "for_range (loop_body_f64 sch a_of dt) [i..<Suc n] s = Inr s''"
      by (simp only: upt for_range_append run bind_res_Inr) (simp add: body s''_def)
    have "\<forall>k\<le>i. arr_x s'' ! k = arr_x s ! k \<and> arr_v s'' ! k = arr_v s ! k"
    proof (intro allI impI)
      fix k assume k: "k \<le> i"
      with le' have "k \<noteq> Suc n" by simp
      then have "arr_x s'' ! k = arr_x s' ! k" "arr_v s'' ! k = arr_v s' ! k"
        by (simp_all add: s''_def)
      with frame [OF k] show "arr_x s'' ! k = arr_x s ! k \<and> arr_v s'' ! k = arr_v s ! k"
        by simp
    qed
    moreover have "arr_t s'' = arr_t s" "length (arr_x s'') = Suc M" "length (arr_v s'') = Suc M"
      using t lx lv by (simp_all add: s''_def)
    ultimately show ?thesis using run' by blast
  qed
qed

lemma init_arrays_f64_ok:
  assumes "1 \<le> N" and "f64 tmax = tmax"
  shows "\<exists>s0. init_arrays_f64 N tmax x0 v0 = Inr s0
           \<and> length (arr_t s0) = Suc (nat N)
           \<and> arr_t s0 ! 0 = 0 \<and> arr_t s0 ! nat N = tmax
           \<and> (\<forall>i<nat N. arr_t s0 ! i =
                 (if f64 (tmax / real_of_int N) = 0
                  then f64 (f64 (real i / real_of_int N) * tmax)
                  else f64 (real i * f64 (tmax / real_of_int N))))
           \<and> arr_x s0 = (replicate (Suc (nat N)) 0)[0 := x0]
           \<and> arr_v s0 = (replicate (Suc (nat N)) 0)[0 := v0]"
proof -
  from np_linspace_f64_grid [OF assms] obtain ts where
    ts: "np_linspace_f64 0 tmax (N + 1) = Inr ts" "length ts = Suc (nat N)"
       "ts ! 0 = 0" "ts ! nat N = tmax"
       "\<forall>i<nat N. ts ! i =
                 (if f64 (tmax / real_of_int N) = 0
                  then f64 (f64 (real i / real_of_int N) * tmax)
                  else f64 (real i * f64 (tmax / real_of_int N)))" by blast
  have z: "np_zeros (N + 1) = Inr (replicate (Suc (nat N)) 0)"
    using assms(1) by (simp add: np_zeros_def nat_add_distrib)
  have "init_arrays_f64 N tmax x0 v0 =
          Inr \<lparr>arr_t = ts, arr_x = (replicate (Suc (nat N)) 0)[0 := x0],
               arr_v = (replicate (Suc (nat N)) 0)[0 := v0]\<rparr>"
    unfolding init_arrays_f64_def ts(1) z bind_res_Inr by (simp add: setitem_def bind_res_Inr)
  with ts show ?thesis by simp
qed



lemma floor_log2_bounds:
  assumes "x \<noteq> 0"
  shows "2 powi \<lfloor>log 2 \<bar>x\<bar>\<rfloor> \<le> \<bar>x\<bar>"
proof -
  have x: "0 < \<bar>x\<bar>" using assms by simp
  have "2 powr (real_of_int \<lfloor>log 2 \<bar>x\<bar>\<rfloor>) \<le> \<bar>x\<bar>"
    using floor_log_eq_powr_iff [of "\<bar>x\<bar>" 2 "\<lfloor>log 2 \<bar>x\<bar>\<rfloor>"] x by simp
  then show ?thesis by (simp add: powr_real_of_int')
qed

lemma floor_log2_ge:
  assumes "2 powi k \<le> \<bar>x\<bar>"
  shows "k \<le> \<lfloor>log 2 \<bar>x\<bar>\<rfloor>"
proof -
  have "0 < (2::real) powi k" by simp
  with assms have x: "0 < \<bar>x\<bar>" by linarith
  have "(2::real) powr (real_of_int k) = 2 powi k" by (simp add: powr_real_of_int')
  with assms have "real_of_int k \<le> log 2 \<bar>x\<bar>"
    using le_log_iff [of 2 "\<bar>x\<bar>" "real_of_int k"] x by simp
  then show ?thesis by (simp only: le_floor_iff)
qed

lemma f64_exponent_normal:
  assumes "2 powi (- 1022) \<le> \<bar>x\<bar>"
  shows "f64_exponent x = \<lfloor>log 2 \<bar>x\<bar>\<rfloor> - 52"
  unfolding f64_exponent_def using floor_log2_ge [OF assms] by linarith

lemma round_half_even_error: "\<bar>of_int (round_half_even q) - q\<bar> \<le> 1 / 2"
proof -
  have "of_int \<lfloor>q\<rfloor> \<le> q" "q < of_int \<lfloor>q\<rfloor> + 1" by linarith+
  then show ?thesis
    by (auto simp: round_half_even_def Let_def abs_le_iff)
qed

lemma f64_rel_error:
  assumes "2 powi (- 1022) \<le> \<bar>x\<bar>"
  shows "\<bar>f64 x - x\<bar> \<le> \<bar>x\<bar> / 2 ^ 53"
proof -
  have "0 < (2::real) powi (- 1022)" by simp
  with assms have x0: "x \<noteq> 0" by auto
  define L where "L = \<lfloor>log 2 \<bar>x\<bar>\<rfloor>"
  define p :: real where "p = 2 powi (L - 52)"
  have p: "0 < p" by (simp add: p_def)
  have e: "f64_exponent x = L - 52" unfolding L_def by (rule f64_exponent_normal [OF assms])
  have low: "2 ^ 52 * p \<le> \<bar>x\<bar>"
  proof -
    have "2 ^ 52 * p = 2 powi L" by (simp add: p_def power_int_diff)
    then show ?thesis using floor_log2_bounds [OF x0] by (simp add: L_def)
  qed
  define n where "n = round_half_even (x / p)"
  have fx: "f64 x = of_int n * p"
    using x0 by (simp add: f64_def e n_def p_def)
  have "f64 x - x = (of_int n - x / p) * p"
    using p by (simp add: fx field_simps)
  then have "\<bar>f64 x - x\<bar> = \<bar>of_int n - x / p\<bar> * p"
    using p by (simp add: abs_mult)
  also have "\<dots> \<le> 1 / 2 * p"
    using round_half_even_error [of "x / p"] p unfolding n_def
    by (intro mult_right_mono) simp_all
  also have "\<dots> \<le> \<bar>x\<bar> / 2 ^ 53"
    using low by simp
  finally show ?thesis .
qed

lemma f64_ge_normal:
  assumes "2 powi (- 1022) \<le> x"
  shows "2 powi (- 1022) \<le> f64 x"
proof -
  have "0 < (2::real) powi (- 1022)" by simp
  with assms have x: "0 < x" by linarith
  define L where "L = \<lfloor>log 2 \<bar>x\<bar>\<rfloor>"
  define p :: real where "p = 2 powi (L - 52)"
  have p: "0 < p" by (simp add: p_def)
  have ax: "2 powi (- 1022) \<le> \<bar>x\<bar>" using assms x by simp
  have e: "f64_exponent x = L - 52" unfolding L_def by (rule f64_exponent_normal [OF ax])
  have L: "- 1022 \<le> L" unfolding L_def by (rule floor_log2_ge [OF ax])
  have pL: "2 ^ 52 * p = 2 powi L" by (simp add: p_def power_int_diff)
  have "2 powi L \<le> x"
    using floor_log2_bounds [of x] x by (simp add: L_def)
  then have "2 ^ 52 \<le> x / p" using p pL by (simp add: pos_le_divide_eq)
  then have "2 ^ 52 \<le> \<lfloor>x / p\<rfloor>" by (simp add: le_floor_iff)
  with round_half_even_bounds(1) [of "x / p"] have "2 ^ 52 \<le> round_half_even (x / p)"
    by linarith
  then have "(2::real) ^ 52 \<le> of_int (round_half_even (x / p))"
    by (metis of_int_le_iff of_int_numeral of_int_power)
  then have "2 ^ 52 * p \<le> of_int (round_half_even (x / p)) * p"
    using p by (intro mult_right_mono) simp_all
  moreover have "f64 x = of_int (round_half_even (x / p)) * p"
    using x by (simp add: f64_def e p_def)
  moreover have "(2::real) powi (- 1022) \<le> 2 powi L"
    using L by (intro power_int_increasing) simp_all
  ultimately show ?thesis using pL by simp
qed

lemma f64_product_tolerance:
  assumes d: "2 powi (- 1022) \<le> d"
  shows "\<bar>f64 (real i * f64 d) - real i * d\<bar> \<le> real i * d / 2 ^ 51"
proof (cases "i = 0")
  case True
  then show ?thesis by (simp add: f64_zero)
next
  case False
  then have i: "1 \<le> real i" by simp
  have p53: "(2::real) ^ 53 = 9007199254740992" and p51: "(2::real) ^ 51 = 2251799813685248"
    by simp_all
  have p: "0 < (2::real) powi (- 1022)" by simp
  with d have d0: "0 < d" by linarith
  define s where "s = f64 d"
  have s: "2 powi (- 1022) \<le> s" unfolding s_def by (rule f64_ge_normal [OF d])
  with p have s0: "0 < s" by linarith
  have "2 powi (- 1022) \<le> \<bar>d\<bar>" using d d0 by (simp only: abs_of_pos)
  from f64_rel_error [OF this] have "\<bar>s - d\<bar> \<le> d / 2 ^ 53"
    using d0 by (simp only: s_def abs_of_pos)
  then have sd: "s \<le> d + d / 9007199254740992" "d - d / 9007199254740992 \<le> s"
    unfolding p53 by linarith+
  define w where "w = real i * d"
  have w: "0 \<le> w" using d0 by (simp add: w_def)
  have "real i * s \<le> real i * (d + d / 9007199254740992)"
    "real i * (d - d / 9007199254740992) \<le> real i * s"
    using sd i by (simp_all only: mult_left_mono)
  then have isw: "real i * s \<le> w + w / 9007199254740992" "w - w / 9007199254740992 \<le> real i * s"
    by (simp_all add: w_def algebra_simps)
  have "1 * s \<le> real i * s" using i s0 by (intro mult_right_mono) simp_all
  then have "s \<le> real i * s" by simp
  with s have "2 powi (- 1022) \<le> real i * s" by (rule order_trans)
  moreover have is0: "0 \<le> real i * s" using s0 by simp
  ultimately have "2 powi (- 1022) \<le> \<bar>real i * s\<bar>" by (simp only: abs_of_nonneg)
  from f64_rel_error [OF this] have "\<bar>f64 (real i * s) - real i * s\<bar> \<le> real i * s / 2 ^ 53"
    using is0 by (simp only: abs_of_nonneg)
  then have e: "f64 (real i * s) \<le> real i * s + real i * s / 9007199254740992"
    "real i * s - real i * s / 9007199254740992 \<le> f64 (real i * s)"
    unfolding p53 by linarith+
  have "\<bar>f64 (real i * s) - w\<bar> \<le> w / 2251799813685248"
    using e isw w by linarith
  then show ?thesis unfolding s_def w_def p51 .
qed

lemma grid_strictly_increasing:
  assumes n: "real n \<le> 2 ^ 50" and d: "0 < d"
    and tol: "\<And>i. i < n \<Longrightarrow> \<bar>ts ! i - real i * d\<bar> \<le> real i * d / 2 ^ 51"
    and last: "ts ! n = real n * d" and len: "length ts = Suc n"
  shows "sorted_wrt (<) ts"
  unfolding sorted_wrt_iff_nth_less
proof (intro allI impI)
  fix i j assume ij: "i < j" "j < length ts"
  then have j: "j \<le> n" and i: "i < n" using len by simp_all
  have p51: "(2::real) ^ 51 = 2251799813685248" and p50: "(2::real) ^ 50 = 1125899906842624"
    by simp_all
  define a b where "a = real i" and "b = real j"
  have ab: "0 \<le> a" "a + 1 \<le> b" "b \<le> 1125899906842624"
    using ij(1) j n unfolding p50 by (simp_all add: a_def b_def)
  have ad: "0 \<le> a * d" and bd: "0 \<le> b * d" using ab d by simp_all
  from tol [OF i] have ti: "ts ! i \<le> a * d + a * d / 2251799813685248"
    unfolding a_def p51 by linarith
  have tj: "b * d - b * d / 2251799813685248 \<le> ts ! j"
  proof (cases "j = n")
    case True
    have "ts ! j = b * d" using last True by (simp add: b_def)
    with bd show ?thesis by linarith
  next
    case False
    with j have "j < n" by simp
    from tol [OF this] show ?thesis unfolding b_def p51 by linarith
  qed
  have "(a + b) / 2251799813685248 = a / 2251799813685248 + b / 2251799813685248"
    by (rule add_divide_distrib)
  then have "0 < b - a - (a + b) / 2251799813685248" using ab by linarith
  then have "0 < d * (b - a - (a + b) / 2251799813685248)" using d by (rule_tac mult_pos_pos)
  moreover have "d * (b - a - (a + b) / 2251799813685248)
      = (b * d - b * d / 2251799813685248) - (a * d + a * d / 2251799813685248)"
    by (simp add: field_simps)
  ultimately have "a * d + a * d / 2251799813685248 < b * d - b * d / 2251799813685248"
    by linarith
  with ti tj show "ts ! i < ts ! j" by linarith
qed

lemma cell_undamped_f64_grid:
  assumes N: "1 \<le> N" and tmax: "f64 tmax = tmax" and om: "\<bar>f64 (om\<^sup>2)\<bar> < 2 ^ 1024"
  shows "\<exists>s. cell_undamped_f64 N om x0 v0 ec eu tmax = Inr s
           \<and> length (arr_t s) = Suc (nat N)
           \<and> arr_t s ! 0 = 0 \<and> arr_t s ! nat N = tmax
           \<and> (\<forall>i<nat N. arr_t s ! i =
                 (if f64 (tmax / real_of_int N) = 0
                  then f64 (f64 (real i / real_of_int N) * tmax)
                  else f64 (real i * f64 (tmax / real_of_int N))))"
proof -
  define dt where "dt = f64 (tmax / real_of_int N)"
  have dt: "true_div_f64 tmax (real_of_int N) = Inr dt"
    unfolding dt_def using N by (simp add: true_div_f64_def)
  from init_arrays_f64_ok [OF N tmax, of x0 v0] obtain s0 where
    s0: "init_arrays_f64 N tmax x0 v0 = Inr s0" "length (arr_t s0) = Suc (nat N)"
        "arr_t s0 ! 0 = 0" "arr_t s0 ! nat N = tmax"
        "\<forall>i<nat N. arr_t s0 ! i =
                 (if f64 (tmax / real_of_int N) = 0
                  then f64 (f64 (real i / real_of_int N) * tmax)
                  else f64 (real i * f64 (tmax / real_of_int N)))"
        "arr_x s0 = (replicate (Suc (nat N)) 0)[0 := x0]"
        "arr_v s0 = (replicate (Suc (nat N)) 0)[0 := v0]" by blast
  have len0: "length (arr_x s0) = Suc (nat N)" "length (arr_v s0) = Suc (nat N)"
    using s0(6,7) by simp_all
  have ex: "\<exists>c. a_undamped_f64 om j u = Inr c" if "j < length (arr_x u)" for j u
    using a_undamped_f64_ok [OF om that] by blast
  have le: "(0::nat) \<le> nat N" "nat N \<le> nat N" by simp_all
  have "\<exists>s1. (if ec then for_range (loop_body_f64 EulerCromer (a_undamped_f64 om) dt) (range0 N) s0
               else Inr s0) = Inr s1 \<and> arr_t s1 = arr_t s0
             \<and> length (arr_x s1) = Suc (nat N) \<and> length (arr_v s1) = Suc (nat N)"
    using loop_f64_frame [where a_of = "a_undamped_f64 om" and sch = EulerCromer and dt = dt,
        OF len0 ex le] len0
    by (cases ec) (auto simp: range0_def)
  then obtain s1 where
    s1: "(if ec then for_range (loop_body_f64 EulerCromer (a_undamped_f64 om) dt) (range0 N) s0
               else Inr s0) = Inr s1" "arr_t s1 = arr_t s0"
        "length (arr_x s1) = Suc (nat N)" "length (arr_v s1) = Suc (nat N)" by blast
  have "\<exists>s2. (if eu then for_range (loop_body_f64 Euler (a_undamped_f64 om) dt) (range0 N) s1
               else Inr s1) = Inr s2 \<and> arr_t s2 = arr_t s1"
    using loop_f64_frame [where a_of = "a_undamped_f64 om" and sch = Euler and dt = dt,
        OF s1(3,4) ex le]
    by (cases eu) (auto simp: range0_def)
  then obtain s2 where
    s2: "(if eu then for_range (loop_body_f64 Euler (a_undamped_f64 om) dt) (range0 N) s1
               else Inr s1) = Inr s2" "arr_t s2 = arr_t s1" by blast
  have "cell_undamped_f64 N om x0 v0 ec eu tmax = Inr s2"
    unfolding cell_undamped_f64_def dt bind_res_Inr s0(1) s1(1) s2(1) by (rule refl)
  with s0(2,3,4,5) s1(2) s2(2) show ?thesis by simp
qed

lemma is_f64_one: "is_f64 1"
  by (simp add: is_f64_def f64_one)

lemma f64_square_one: "\<bar>f64 (1\<^sup>2)\<bar> < 2 ^ 1024"
  by (simp add: f64_one)

section \<open>The claims of the specification\<close>

subsection \<open>Claim C1\<close>

text \<open>
  C1. In cell 1 with \<open>N \<ge> 1\<close> steps, the Euler-Cromer run and the Euler run both return, and
  for every step \<open>i < N\<close> the new velocity is \<open>v\<^sub>i + a\<^sub>i * dt\<close> with \<open>a\<^sub>i = acc(x\<^sub>i, om)\<close>
  taken at the current sample and \<open>dt = tmax / N\<close>; the new position is
  \<open>x\<^sub>i + v\<^sub>i\<^sub>+\<^sub>1 * dt\<close> in the Euler-Cromer run and \<open>x\<^sub>i + v\<^sub>i * dt\<close> in the Euler run.
\<close>

theorem euler_and_euler_cromer_updates:
  assumes "1 \<le> N"
  shows "\<exists>s_ec s_eu e e'.
           cell_undamped N om x0 v0 True False False tmax = Inr (s_ec, e)
         \<and> cell_undamped N om x0 v0 False True False tmax = Inr (s_eu, e')
         \<and> (\<forall>i<nat N.
               arr_v s_ec ! Suc i = arr_v s_ec ! i + acc (arr_x s_ec ! i) om * (tmax / real_of_int N)
             \<and> arr_x s_ec ! Suc i = arr_x s_ec ! i + arr_v s_ec ! Suc i * (tmax / real_of_int N)
             \<and> arr_v s_eu ! Suc i = arr_v s_eu ! i + acc (arr_x s_eu ! i) om * (tmax / real_of_int N)
             \<and> arr_x s_eu ! Suc i = arr_x s_eu ! i + arr_v s_eu ! i * (tmax / real_of_int N))"
proof -
  from cell_undamped_ok [OF assms, of False om x0 v0 True False tmax] obtain s_ec e where
    ec: "cell_undamped N om x0 v0 True False False tmax = Inr (s_ec, e)"
        "follows_scheme EulerCromer (\<lambda>j x v. acc x om) (tmax / real_of_int N) (nat N) s_ec"
    by auto
  from cell_undamped_ok [OF assms, of False om x0 v0 False True tmax] obtain s_eu e' where
    eu: "cell_undamped N om x0 v0 False True False tmax = Inr (s_eu, e')"
        "follows_scheme Euler (\<lambda>j x v. acc x om) (tmax / real_of_int N) (nat N) s_eu"
    by auto
  from ec(2) eu(2) have "\<forall>i<nat N.
               arr_v s_ec ! Suc i = arr_v s_ec ! i + acc (arr_x s_ec ! i) om * (tmax / real_of_int N)
             \<and> arr_x s_ec ! Suc i = arr_x s_ec ! i + arr_v s_ec ! Suc i * (tmax / real_of_int N)
             \<and> arr_v s_eu ! Suc i = arr_v s_eu ! i + acc (arr_x s_eu ! i) om * (tmax / real_of_int N)
             \<and> arr_x s_eu ! Suc i = arr_x s_eu ! i + arr_v s_eu ! i * (tmax / real_of_int N)"
    unfolding follows_scheme_def by simp
  with ec(1) eu(1) show ?thesis by blast
qed

theorem euler_and_euler_cromer_updates_witness:
  "(1::int) \<le> 2 \<and>
   cell_undamped 2 1 1 0 True False False 1
     = Inr (\<lparr>arr_t = [0, 1/2, 1], arr_x = [1, 3/4, 5/16], arr_v = [0, -1/2, -7/8]\<rparr>, None) \<and>
   cell_undamped 2 1 1 0 False True False 1
     = Inr (\<lparr>arr_t = [0, 1/2, 1], arr_x = [1, 1, 3/4], arr_v = [0, -1/2, -1]\<rparr>, None) \<and>
   (\<exists>s_ec s_eu e e'.
           cell_undamped 2 1 1 0 True False False 1 = Inr (s_ec, e)
         \<and> cell_undamped 2 1 1 0 False True False 1 = Inr (s_eu, e')
         \<and> arr_v s_ec ! Suc 1 = arr_v s_ec ! 1 + acc (arr_x s_ec ! 1) 1 * (1 / 2)
         \<and> arr_x s_ec ! Suc 1 = arr_x s_ec ! 1 + arr_v s_ec ! Suc 1 * (1 / 2)
         \<and> arr_v s_eu ! Suc 1 = arr_v s_eu ! 1 + acc (arr_x s_eu ! 1) 1 * (1 / 2)
         \<and> arr_x s_eu ! Suc 1 = arr_x s_eu ! 1 + arr_v s_eu ! 1 * (1 / 2))"
proof -
  have a: "cell_undamped 2 1 1 0 True False False 1
     = Inr (\<lparr>arr_t = [0, 1/2, 1], arr_x = [1, 3/4, 5/16], arr_v = [0, -1/2, -7/8]\<rparr>, None)"
    by (simp add: cell_eval acc_def eval_nat_numeral)
  have b: "cell_undamped 2 1 1 0 False True False 1
     = Inr (\<lparr>arr_t = [0, 1/2, 1], arr_x = [1, 1, 3/4], arr_v = [0, -1/2, -1]\<rparr>, None)"
    by (simp add: cell_eval acc_def eval_nat_numeral)
  have h: "(1::int) \<le> 2" by simp
  from euler_and_euler_cromer_updates [OF h, of 1 1 0 1] obtain s_ec s_eu e e' where
    r: "cell_undamped 2 1 1 0 True False False 1 = Inr (s_ec, e)"
       "cell_undamped 2 1 1 0 False True False 1 = Inr (s_eu, e')"
       "\<forall>i<nat 2.
               arr_v s_ec ! Suc i = arr_v s_ec ! i + acc (arr_x s_ec ! i) 1 * (1 / real_of_int 2)
             \<and> arr_x s_ec ! Suc i = arr_x s_ec ! i + arr_v s_ec ! Suc i * (1 / real_of_int 2)
             \<and> arr_v s_eu ! Suc i = arr_v s_eu ! i + acc (arr_x s_eu ! i) 1 * (1 / real_of_int 2)
             \<and> arr_x s_eu ! Suc i = arr_x s_eu ! i + arr_v s_eu ! i * (1 / real_of_int 2)"
    by blast
  from r(3) have "arr_v s_ec ! Suc 1 = arr_v s_ec ! 1 + acc (arr_x s_ec ! 1) 1 * (1 / 2)
         \<and> arr_x s_ec ! Suc 1 = arr_x s_ec ! 1 + arr_v s_ec ! Suc 1 * (1 / 2)
         \<and> arr_v s_eu ! Suc 1 = arr_v s_eu ! 1 + acc (arr_x s_eu ! 1) 1 * (1 / 2)
         \<and> arr_x s_eu ! Suc 1 = arr_x s_eu ! 1 + arr_v s_eu ! 1 * (1 / 2)"
    by simp
  with r(1,2) a b h show ?thesis by blast
qed

subsection \<open>Claim C2\<close>

text \<open>
  C2. In cell 1 with \<open>om = 5\<close>, \<open>x0 = 0.5\<close>, \<open>v0 = 5\<close>, \<open>N = 100\<close>, \<open>tmax = 5\<close>, the energy
  estimate \<open>v\<^sub>i\<^sup>2 / 2 + om\<^sup>2 x\<^sub>i\<^sup>2 / 2\<close> along the Euler run is strictly greater at every step
  than at the step before, while along the Euler-Cromer run it stays at every sample
  between \<open>25/2\<close> and \<open>225/14\<close>, a band around its first value \<open>125/8\<close>: there the
  energy differs from a quantity that every step keeps exactly, \<open>225/16\<close>, by the bounded
  term \<open>dt om\<^sup>2 x\<^sub>i v\<^sub>i / 2\<close> only.
\<close>

theorem euler_energy_grows_euler_cromer_energy_bounded:
  "\<exists>s_eu s_ec e e'.
      cell_undamped 100 5 (1/2) 5 False True False 5 = Inr (s_eu, e)
    \<and> cell_undamped 100 5 (1/2) 5 True False False 5 = Inr (s_ec, e')
    \<and> (\<forall>i<100. energy 5 s_eu i < energy 5 s_eu (Suc i))
    \<and> energy 5 s_ec 0 = 125 / 8
    \<and> (\<forall>i\<le>100. 25 / 2 \<le> energy 5 s_ec i \<and> energy 5 s_ec i \<le> 225 / 14
          \<and> energy 5 s_ec i - 1 / 2 * (1 / 20) * 5\<^sup>2 * (arr_x s_ec ! i) * (arr_v s_ec ! i)
              = 225 / 16)"
proof -
  have N: "(1::int) \<le> 100" and ex: "False \<longrightarrow> (5::real) \<noteq> 0" by simp_all
  from cell_undamped_ok [OF N ex, of "1/2" 5 False True 5] obtain s_eu e where
    eu: "cell_undamped 100 5 (1/2) 5 False True False 5 = Inr (s_eu, e)"
        "trajectory_of 100 5 (1/2) 5 s_eu"
        "follows_scheme Euler (\<lambda>j x v. acc x 5) (5 / real_of_int 100) (nat 100) s_eu"
    by auto
  from cell_undamped_ok [OF N ex, of "1/2" 5 True False 5] obtain s_ec e' where
    ec: "cell_undamped 100 5 (1/2) 5 True False False 5 = Inr (s_ec, e')"
        "trajectory_of 100 5 (1/2) 5 s_ec"
        "follows_scheme EulerCromer (\<lambda>j x v. acc x 5) (5 / real_of_int 100) (nat 100) s_ec"
    by auto
  have dt: "(5::real) / real_of_int 100 \<noteq> 0" "(5::real) \<noteq> 0" by simp_all
  from eu(2) have y: "arr_x s_eu ! 0 = 1 / 2" "arr_v s_eu ! 0 = 5"
    by (simp_all add: trajectory_of_def)
  have eu0: "0 < energy 5 s_eu 0"
    unfolding energy_def y by (simp add: power2_eq_square)
  have grows: "\<forall>i<100. energy 5 s_eu i < energy 5 s_eu (Suc i)"
  proof (intro allI impI)
    fix i :: nat assume "i < 100"
    then have "i < nat 100" by simp
    from euler_energy_grows [OF eu(3) eu0 dt(2) dt(1) this]
    show "energy 5 s_eu i < energy 5 s_eu (Suc i)" .
  qed
  from ec(2) have z: "arr_x s_ec ! 0 = 1 / 2" "arr_v s_ec ! 0 = 5"
    by (simp_all add: trajectory_of_def)
  have ec0: "energy 5 s_ec 0 = 125 / 8"
    unfolding energy_def z by (simp add: power2_eq_square)
  have band: "\<forall>i\<le>100. 25 / 2 \<le> energy 5 s_ec i \<and> energy 5 s_ec i \<le> 225 / 14
          \<and> energy 5 s_ec i - 1 / 2 * (1 / 20) * 5\<^sup>2 * (arr_x s_ec ! i) * (arr_v s_ec ! i)
              = 225 / 16"
  proof (intro allI impI)
    fix i :: nat assume "i \<le> 100"
    then have "i \<le> nat 100" by simp
    from euler_cromer_shadow_constant [OF ec(3) this]
    have q: "energy 5 s_ec i - 1 / 2 * (1 / 20) * 5\<^sup>2 * (arr_x s_ec ! i) * (arr_v s_ec ! i)
            = 225 / 16"
      unfolding ec0 z by simp
    then have "25 / 2 \<le> energy 5 s_ec i \<and> energy 5 s_ec i \<le> 225 / 14"
      unfolding energy_def by (rule energy_band)
    with q show "25 / 2 \<le> energy 5 s_ec i \<and> energy 5 s_ec i \<le> 225 / 14
          \<and> energy 5 s_ec i - 1 / 2 * (1 / 20) * 5\<^sup>2 * (arr_x s_ec ! i) * (arr_v s_ec ! i)
              = 225 / 16"
      by (intro conjI) simp_all
  qed
  from eu(1) ec(1) grows ec0 band show ?thesis by blast
qed

theorem euler_energy_grows_euler_cromer_energy_bounded_witness:
  "\<exists>s_eu s_ec e e'.
      cell_undamped 100 5 (1/2) 5 False True False 5 = Inr (s_eu, e)
    \<and> cell_undamped 100 5 (1/2) 5 True False False 5 = Inr (s_ec, e')
    \<and> energy 5 s_eu 0 < energy 5 s_eu (Suc 0)
    \<and> energy 5 s_eu 99 < energy 5 s_eu (Suc 99)
    \<and> 25 / 2 \<le> energy 5 s_ec 100 \<and> energy 5 s_ec 100 \<le> 225 / 14"
proof -
  from euler_energy_grows_euler_cromer_energy_bounded obtain s_eu s_ec e e' where
    r: "cell_undamped 100 5 (1/2) 5 False True False 5 = Inr (s_eu, e)"
       "cell_undamped 100 5 (1/2) 5 True False False 5 = Inr (s_ec, e')"
       "\<forall>i<100. energy 5 s_eu i < energy 5 s_eu (Suc i)"
       "\<forall>i\<le>100. 25 / 2 \<le> energy 5 s_ec i \<and> energy 5 s_ec i \<le> 225 / 14
          \<and> energy 5 s_ec i - 1 / 2 * (1 / 20) * 5\<^sup>2 * (arr_x s_ec ! i) * (arr_v s_ec ! i)
              = 225 / 16"
    by blast
  have i: "(0::nat) < 100" "(99::nat) < 100" "(100::nat) \<le> 100" by simp_all
  from r(3) i(1,2) have "energy 5 s_eu 0 < energy 5 s_eu (Suc 0)"
    "energy 5 s_eu 99 < energy 5 s_eu (Suc 99)" by blast+
  moreover from r(4) i(3) have "25 / 2 \<le> energy 5 s_ec 100 \<and> energy 5 s_ec 100 \<le> 225 / 14"
    by blast
  ultimately show ?thesis using r(1,2) by blast
qed

subsection \<open>Claim C3\<close>




subsection \<open>Claim C4\<close>

text \<open>
  C4, as the specification states it, fails in float64 arithmetic. With \<open>N = 2\<close> and
  \<open>tmax = 2\<^sup>-\<^sup>1\<^sup>0\<^sup>7\<^sup>4\<close>, the smallest positive float64, the step \<open>tmax / 2\<close> underflows to zero
  and the time array of cell 1 is \<open>[0, 0, tmax]\<close>: it is not strictly increasing, and \<open>t\<^sub>1\<close> is
  not \<open>1 * (tmax / 2)\<close>.
\<close>

theorem time_grid_underflow:
  "cell_undamped_f64 2 1 1 0 True False (1 / 2 ^ 1074)
     = Inr \<lparr>arr_t = [0, 0, 1 / 2 ^ 1074], arr_x = [1, 1, 1], arr_v = [0, 0, 0]\<rparr>"
proof -
  define u :: real where "u = 1 / 2 ^ 1074"
  have u2: "u / 2 = 1 / 2 ^ 1075" unfolding u_def by simp
  have u0: "u \<noteq> 0" unfolding u_def by simp
  have r: "f64 u = u" "f64 (u / 2) = 0"
    unfolding u2 unfolding u_def by (rule f64_p1074 f64_underflow)+
  have "cell_undamped_f64 2 1 1 0 True False u
     = Inr \<lparr>arr_t = [0, 0, u], arr_x = [1, 1, 1], arr_v = [0, 0, 0]\<rparr>"
    using u0
    by (simp add: cell_f64_eval eval_nat_numeral f64_zero f64_one f64_minus_one f64_half r)
  then show ?thesis unfolding u_def .
qed

text \<open>
  C4, amended. In float64 arithmetic, for \<open>N \<ge> 1\<close> and a float64 \<open>tmax\<close> the time array of
  cell 1 has \<open>N + 1\<close> entries with \<open>t\<^sub>0 = 0\<close> and \<open>t\<^sub>N = tmax\<close> exactly, and for \<open>i < N\<close> the
  entry \<open>t\<^sub>i\<close> is the float64 product \<open>i * dt\<close> of the float64 quotient \<open>dt = tmax / N\<close> (the
  product \<open>(i / N) * tmax\<close> when \<open>dt\<close> is zero). When \<open>tmax / N\<close> is at least \<open>2\<^sup>-\<^sup>1\<^sup>0\<^sup>2\<^sup>2\<close>, the
  smallest normal float64, and \<open>N \<le> 2\<^sup>5\<^sup>0\<close>, every \<open>t\<^sub>i\<close> is within the relative error
  \<open>2\<^sup>-\<^sup>5\<^sup>1\<close> of \<open>i * (tmax / N)\<close> and the array is strictly increasing.
\<close>

theorem time_grid_in_float64:
  assumes "1 \<le> N" and "is_f64 tmax" and "\<bar>f64 (om\<^sup>2)\<bar> < 2 ^ 1024"
  shows "\<exists>s. cell_undamped_f64 N om x0 v0 ec eu tmax = Inr s
           \<and> int (length (arr_t s)) = N + 1
           \<and> arr_t s ! 0 = 0 \<and> arr_t s ! nat N = tmax
           \<and> (\<forall>i<nat N. arr_t s ! i =
                 (if f64 (tmax / real_of_int N) = 0
                  then f64 (f64 (real i / real_of_int N) * tmax)
                  else f64 (real i * f64 (tmax / real_of_int N))))
           \<and> (N \<le> 2 ^ 50 \<and> 1 / 2 ^ 1022 \<le> tmax / real_of_int N \<longrightarrow>
                (\<forall>i\<le>nat N. \<bar>arr_t s ! i - real i * (tmax / real_of_int N)\<bar>
                               \<le> real i * (tmax / real_of_int N) / 2 ^ 51)
                \<and> sorted_wrt (<) (arr_t s))"
proof -
  have t: "f64 tmax = tmax" using assms(2) by (simp add: is_f64_def)
  from cell_undamped_f64_grid [OF assms(1) t assms(3), of x0 v0 ec eu] obtain s where
    s: "cell_undamped_f64 N om x0 v0 ec eu tmax = Inr s" "length (arr_t s) = Suc (nat N)"
       "arr_t s ! 0 = 0" "arr_t s ! nat N = tmax"
       "\<forall>i<nat N. arr_t s ! i =
                 (if f64 (tmax / real_of_int N) = 0
                  then f64 (f64 (real i / real_of_int N) * tmax)
                  else f64 (real i * f64 (tmax / real_of_int N)))"
    by blast
  define d where "d = tmax / real_of_int N"
  have len: "int (length (arr_t s)) = N + 1" using s(2) assms(1) by simp
  have last: "arr_t s ! nat N = real (nat N) * d"
    using s(4) assms(1) by (simp add: d_def)
  have tol: "N \<le> 2 ^ 50 \<and> 1 / 2 ^ 1022 \<le> d \<longrightarrow>
                (\<forall>i\<le>nat N. \<bar>arr_t s ! i - real i * d\<bar> \<le> real i * d / 2 ^ 51)
                \<and> sorted_wrt (<) (arr_t s)"
  proof (intro impI)
    assume a: "N \<le> 2 ^ 50 \<and> 1 / 2 ^ 1022 \<le> d"
    then have d: "2 powi (- 1022) \<le> d" by (simp add: power_int_minus field_simps)
    have "0 < (2::real) powi (- 1022)" by simp
    with d have d0: "0 < d" by linarith
    from f64_ge_normal [OF d] \<open>0 < 2 powi (- 1022)\<close> have nz: "f64 d \<noteq> 0" by linarith
    have in_tol: "\<bar>arr_t s ! i - real i * d\<bar> \<le> real i * d / 2 ^ 51" if "i < nat N" for i
    proof -
      from s(5) that nz have "arr_t s ! i = f64 (real i * f64 d)" by (simp add: d_def)
      then show ?thesis using f64_product_tolerance [OF d, of i] by simp
    qed
    have all: "\<forall>i\<le>nat N. \<bar>arr_t s ! i - real i * d\<bar> \<le> real i * d / 2 ^ 51"
    proof (intro allI impI)
      fix i assume "i \<le> nat N"
      then consider "i < nat N" | "i = nat N" by linarith
      then show "\<bar>arr_t s ! i - real i * d\<bar> \<le> real i * d / 2 ^ 51"
      proof cases
        case 1
        then show ?thesis by (rule in_tol)
      next
        case 2
        then show ?thesis using last d0 by simp
      qed
    qed
    have "real (nat N) \<le> 2 ^ 50"
    proof -
      from a have "nat N \<le> 2 ^ 50" by (simp add: nat_le_iff)
      then have "real (nat N) \<le> real (2 ^ 50)" by (simp only: of_nat_le_iff)
      then show ?thesis by simp
    qed
    from grid_strictly_increasing [OF this d0 in_tol last s(2)]
    have "sorted_wrt (<) (arr_t s)" .
    with all show "(\<forall>i\<le>nat N. \<bar>arr_t s ! i - real i * d\<bar> \<le> real i * d / 2 ^ 51)
                \<and> sorted_wrt (<) (arr_t s)" by simp
  qed
  from s(1) len s(3,4,5) tol show ?thesis unfolding d_def by blast
qed

theorem time_grid_in_float64_witness:
  "(1::int) \<le> 2 \<and> is_f64 1 \<and> \<bar>f64 (1\<^sup>2)\<bar> < 2 ^ 1024 \<and> (2::int) \<le> 2 ^ 50
   \<and> (1::real) / 2 ^ 1022 \<le> 1 / real_of_int 2 \<and>
   (\<exists>s. cell_undamped_f64 2 1 1 0 True False 1 = Inr s
      \<and> int (length (arr_t s)) = 2 + 1
      \<and> arr_t s ! 0 = 0 \<and> arr_t s ! nat 2 = 1 \<and> arr_t s ! 1 = 1 / 2
      \<and> \<bar>arr_t s ! 1 - real 1 * (1 / real_of_int 2)\<bar> \<le> real 1 * (1 / real_of_int 2) / 2 ^ 51
      \<and> sorted_wrt (<) (arr_t s))"
proof -
  have h: "(1::int) \<le> 2" "is_f64 1" "\<bar>f64 (1\<^sup>2)\<bar> < 2 ^ 1024"
    by (simp, rule is_f64_one, rule f64_square_one)
  have c: "(2::int) \<le> 2 ^ 50 \<and> (1::real) / 2 ^ 1022 \<le> 1 / real_of_int 2" by simp
  from time_grid_in_float64 [OF h, of 1 0 True False] obtain s where
    s: "cell_undamped_f64 2 1 1 0 True False 1 = Inr s"
       "int (length (arr_t s)) = 2 + 1" "arr_t s ! 0 = 0" "arr_t s ! nat 2 = 1"
       "\<forall>i<nat 2. arr_t s ! i =
                 (if f64 (1 / real_of_int 2) = 0
                  then f64 (f64 (real i / real_of_int 2) * 1)
                  else f64 (real i * f64 (1 / real_of_int 2)))"
       "(2::int) \<le> 2 ^ 50 \<and> (1::real) / 2 ^ 1022 \<le> 1 / real_of_int 2 \<longrightarrow>
                (\<forall>i\<le>nat 2. \<bar>arr_t s ! i - real i * (1 / real_of_int 2)\<bar>
                               \<le> real i * (1 / real_of_int 2) / 2 ^ 51)
                \<and> sorted_wrt (<) (arr_t s)"
    by blast
  have i: "(1::nat) < nat 2" "(1::nat) \<le> nat 2" by simp_all
  from s(5) i(1) have "arr_t s ! 1 =
                 (if f64 (1 / real_of_int 2) = 0
                  then f64 (f64 (real 1 / real_of_int 2) * 1)
                  else f64 (real 1 * f64 (1 / real_of_int 2)))"
    by blast
  then have t1: "arr_t s ! 1 = 1 / 2" by (simp add: f64_half)
  from s(6) c have g: "\<forall>i\<le>nat 2. \<bar>arr_t s ! i - real i * (1 / real_of_int 2)\<bar>
                               \<le> real i * (1 / real_of_int 2) / 2 ^ 51"
    "sorted_wrt (<) (arr_t s)" by blast+
  from g(1) i(2) have "\<bar>arr_t s ! 1 - real 1 * (1 / real_of_int 2)\<bar>
      \<le> real 1 * (1 / real_of_int 2) / 2 ^ 51" by blast
  with s(1,2,3,4) t1 g(2) h c show ?thesis by blast
qed

subsection \<open>Claim C5\<close>

text \<open>
  C5. With \<open>N \<ge> 1\<close> steps every cell returns arrays of exactly \<open>N + 1\<close> samples, and the
  first position and velocity are the initial conditions given: \<open>x[0] = x0\<close> and
  \<open>v[0] = v0\<close> (in cell 3 the initial velocity is the constant \<open>0\<close>).
\<close>

theorem length_and_initial_conditions:
  assumes "1 \<le> N" and "ex \<longrightarrow> om \<noteq> 0" and "om_d \<noteq> 0"
  shows "(\<exists>s e. cell_undamped N om x0 v0 ec eu ex tmax = Inr (s, e)
            \<and> int (length (arr_t s)) = N + 1 \<and> int (length (arr_x s)) = N + 1
            \<and> int (length (arr_v s)) = N + 1 \<and> arr_x s ! 0 = x0 \<and> arr_v s ! 0 = v0)
       \<and> (\<exists>s. cell_damped N v0 ze om tmax x0 = Inr s
            \<and> int (length (arr_t s)) = N + 1 \<and> int (length (arr_x s)) = N + 1
            \<and> int (length (arr_v s)) = N + 1 \<and> arr_x s ! 0 = x0 \<and> arr_v s ! 0 = v0)
       \<and> (\<exists>s. cell_driven N om ze om_d x0 a0 = Inr s
            \<and> int (length (arr_t s)) = N + 1 \<and> int (length (arr_x s)) = N + 1
            \<and> int (length (arr_v s)) = N + 1 \<and> arr_x s ! 0 = x0 \<and> arr_v s ! 0 = 0)"
proof -
  have tr: "int (length (arr_t s)) = N + 1 \<and> int (length (arr_x s)) = N + 1
            \<and> int (length (arr_v s)) = N + 1 \<and> arr_x s ! 0 = a \<and> arr_v s ! 0 = b"
    if "trajectory_of N T a b s" for T a b s
    using that assms(1) by (simp add: trajectory_of_def)
  from cell_undamped_ok [OF assms(1,2), of x0 v0 ec eu tmax] obtain s1 e where
    s1: "cell_undamped N om x0 v0 ec eu ex tmax = Inr (s1, e)" "trajectory_of N tmax x0 v0 s1"
    by blast
  from cell_damped_ok [OF assms(1), of v0 ze om tmax x0] obtain s2 where
    s2: "cell_damped N v0 ze om tmax x0 = Inr s2" "trajectory_of N tmax x0 v0 s2"
    by blast
  from cell_driven_ok [OF assms(1,3), of om ze x0 a0] obtain s3 where
    s3: "cell_driven N om ze om_d x0 a0 = Inr s3" "trajectory_of N (100 * pi / om_d) x0 0 s3"
    by blast
  show ?thesis
    using s1(1) s2(1) s3(1) tr [OF s1(2)] tr [OF s2(2)] tr [OF s3(2)] by blast
qed

theorem length_and_initial_conditions_witness:
  "(1::int) \<le> 2 \<and> (1::real) \<noteq> 0 \<and> (2::real) \<noteq> 0 \<and>
   (\<exists>s e. cell_undamped 2 1 1 0 True True True 1 = Inr (s, e)
            \<and> int (length (arr_t s)) = 2 + 1 \<and> int (length (arr_x s)) = 2 + 1
            \<and> int (length (arr_v s)) = 2 + 1 \<and> arr_x s ! 0 = 1 \<and> arr_v s ! 0 = 0) \<and>
   (\<exists>s. cell_damped 2 0 (1/10) 1 1 1 = Inr s
            \<and> int (length (arr_t s)) = 2 + 1 \<and> int (length (arr_x s)) = 2 + 1
            \<and> int (length (arr_v s)) = 2 + 1 \<and> arr_x s ! 0 = 1 \<and> arr_v s ! 0 = 0) \<and>
   (\<exists>s. cell_driven 2 1 (1/10) 2 1 1 = Inr s
            \<and> int (length (arr_t s)) = 2 + 1 \<and> int (length (arr_x s)) = 2 + 1
            \<and> int (length (arr_v s)) = 2 + 1 \<and> arr_x s ! 0 = 1 \<and> arr_v s ! 0 = 0)"
proof -
  have h: "(1::int) \<le> 2" "True \<longrightarrow> (1::real) \<noteq> 0" "(2::real) \<noteq> 0" by simp_all
  note g = length_and_initial_conditions [where N = 2 and ex = True and om = 1 and om_d = 2
      and ?x0.0 = 1 and ?v0.0 = 0 and ec = True and eu = True and tmax = 1 and ze = "1/10"
      and ?a0.0 = 1, OF h]
  from g h show ?thesis by blast
qed

subsection \<open>Claim C6\<close>

text \<open>
  C6. The three acceleration functions return \<open>- om\<^sup>2 x\<close>, \<open>- om\<^sup>2 x - 2 de v\<close> and
  \<open>- om\<^sup>2 x - 2 de v + a_d sin (om_d t)\<close>, each a function of its arguments only. In the
  runs of cell 2 and cell 3 (\<open>N \<ge> 1\<close>) the damping coefficient passed at every step is
  \<open>ze * om\<close>: the acceleration of step \<open>i\<close> is the law at \<open>x\<^sub>i\<close>, \<open>v\<^sub>i\<close> (and the time \<open>t\<^sub>i\<close> in
  cell 3) with \<open>de = ze * om\<close>.
\<close>

theorem acceleration_laws:
  assumes "1 \<le> N" and "om_d \<noteq> 0"
  shows "acc x om = - (om\<^sup>2 * x)
       \<and> acc_damped x v om de = - (om\<^sup>2 * x) - 2 * de * v
       \<and> acc_driven t x v om de a_d om_d = - (om\<^sup>2 * x) - 2 * de * v + a_d * sin (om_d * t)
       \<and> (\<exists>s. cell_damped N v0 ze om tmax x0 = Inr s
            \<and> (\<forall>i<nat N. arr_v s ! Suc i = arr_v s ! i +
                  (- (om\<^sup>2 * arr_x s ! i) - 2 * (ze * om) * arr_v s ! i) * (tmax / real_of_int N)))
       \<and> (\<exists>s. cell_driven N om ze om_d x0 a0 = Inr s
            \<and> (\<forall>i<nat N. arr_v s ! Suc i = arr_v s ! i +
                  (- (om\<^sup>2 * arr_x s ! i) - 2 * (ze * om) * arr_v s ! i
                   + a0 * sin (om_d * arr_t s ! i)) * (100 * pi / om_d / real_of_int N)))"
proof -
  from cell_damped_ok [OF assms(1), of v0 ze om tmax x0] obtain s2 where
    s2: "cell_damped N v0 ze om tmax x0 = Inr s2"
        "follows_scheme EulerCromer (\<lambda>j x v. acc_damped x v om (ze * om))
           (tmax / real_of_int N) (nat N) s2"
    by blast
  from s2(2) have d: "\<forall>i<nat N. arr_v s2 ! Suc i = arr_v s2 ! i +
                  (- (om\<^sup>2 * arr_x s2 ! i) - 2 * (ze * om) * arr_v s2 ! i) * (tmax / real_of_int N)"
    unfolding follows_scheme_def acc_damped_def by simp
  from cell_driven_ok [OF assms, of om ze x0 a0] obtain s3 where
    s3: "cell_driven N om ze om_d x0 a0 = Inr s3"
        "trajectory_of N (100 * pi / om_d) x0 0 s3"
        "follows_scheme EulerCromer
           (\<lambda>j x v. acc_driven (real j * (100 * pi / om_d / real_of_int N)) x v om (ze * om) a0 om_d)
           (100 * pi / om_d / real_of_int N) (nat N) s3"
    by blast
  have t: "arr_t s3 ! i = real i * (100 * pi / om_d / real_of_int N)" if "i < nat N" for i
    using s3(2) that by (simp add: trajectory_of_def)
  have "\<forall>i<nat N. arr_v s3 ! Suc i = arr_v s3 ! i +
                  (- (om\<^sup>2 * arr_x s3 ! i) - 2 * (ze * om) * arr_v s3 ! i
                   + a0 * sin (om_d * arr_t s3 ! i)) * (100 * pi / om_d / real_of_int N)"
  proof (intro allI impI)
    fix i assume i: "i < nat N"
    from s3(3) i have "arr_v s3 ! Suc i = arr_v s3 ! i +
        acc_driven (real i * (100 * pi / om_d / real_of_int N)) (arr_x s3 ! i) (arr_v s3 ! i)
          om (ze * om) a0 om_d * (100 * pi / om_d / real_of_int N)"
      unfolding follows_scheme_def by simp
    then show "arr_v s3 ! Suc i = arr_v s3 ! i +
                  (- (om\<^sup>2 * arr_x s3 ! i) - 2 * (ze * om) * arr_v s3 ! i
                   + a0 * sin (om_d * arr_t s3 ! i)) * (100 * pi / om_d / real_of_int N)"
      unfolding t [OF i] acc_driven_def by simp
  qed
  with s2(1) d s3(1) show ?thesis
    by (auto simp: acc_def acc_damped_def acc_driven_def)
qed

theorem acceleration_laws_witness:
  "(1::int) \<le> 2 \<and> (2::real) \<noteq> 0 \<and>
   acc 3 2 = - 12 \<and> acc_damped 3 1 2 (1/2) = - 13 \<and> acc_driven 0 3 1 2 (1/2) 1 2 = - 13 \<and>
   cell_damped 2 0 (1/2) 1 1 1
     = Inr \<lparr>arr_t = [0, 1/2, 1], arr_x = [1, 3/4, 7/16], arr_v = [0, -1/2, -5/8]\<rparr> \<and>
   (\<exists>s. cell_damped 2 0 (1/2) 1 1 1 = Inr s
       \<and> arr_v s ! Suc 1 = arr_v s ! 1 +
           (- (1\<^sup>2 * arr_x s ! 1) - 2 * (1/2 * 1) * arr_v s ! 1) * (1 / real_of_int 2)) \<and>
   (\<exists>s. cell_driven 2 1 (1/2) 2 1 1 = Inr s
       \<and> arr_v s ! Suc 0 = arr_v s ! 0 +
           (- (1\<^sup>2 * arr_x s ! 0) - 2 * (1/2 * 1) * arr_v s ! 0
            + 1 * sin (2 * arr_t s ! 0)) * (100 * pi / 2 / real_of_int 2))"
proof -
  have h: "(1::int) \<le> 2" "(2::real) \<noteq> 0" by simp_all
  have a: "cell_damped 2 0 (1/2) 1 1 1
     = Inr \<lparr>arr_t = [0, 1/2, 1], arr_x = [1, 3/4, 7/16], arr_v = [0, -1/2, -5/8]\<rparr>"
    by (simp add: cell_eval acc_damped_def eval_nat_numeral)
  note g = acceleration_laws [where N = 2 and om_d = 2 and ?v0.0 = 0 and ze = "1/2" and om = 1
      and tmax = 1 and ?x0.0 = 1 and ?a0.0 = 1, OF h]
  have l: "acc 3 2 = - 12" "acc_damped 3 1 2 (1/2) = - 13" "acc_driven 0 3 1 2 (1/2) 1 2 = - 13"
    using acceleration_laws [where N = 2 and om_d = 2 and x = 3 and om = 2 and v = 1
        and de = "1/2" and t = 0 and a_d = 1, OF h]
    by simp_all
  from g obtain s2 where s2: "cell_damped 2 0 (1/2) 1 1 1 = Inr s2"
    "\<forall>i<nat 2. arr_v s2 ! Suc i = arr_v s2 ! i +
         (- (1\<^sup>2 * arr_x s2 ! i) - 2 * (1/2 * 1) * arr_v s2 ! i) * (1 / real_of_int 2)"
    by blast
  from g obtain s3 where s3: "cell_driven 2 1 (1/2) 2 1 1 = Inr s3"
    "\<forall>i<nat 2. arr_v s3 ! Suc i = arr_v s3 ! i +
         (- (1\<^sup>2 * arr_x s3 ! i) - 2 * (1/2 * 1) * arr_v s3 ! i
            + 1 * sin (2 * arr_t s3 ! i)) * (100 * pi / 2 / real_of_int 2)"
    by blast
  have i: "(1::nat) < nat 2" "(0::nat) < nat 2" by simp_all
  from s2(2) i(1) have "arr_v s2 ! Suc 1 = arr_v s2 ! 1 +
           (- (1\<^sup>2 * arr_x s2 ! 1) - 2 * (1/2 * 1) * arr_v s2 ! 1) * (1 / real_of_int 2)"
    by blast
  moreover from s3(2) i(2) have "arr_v s3 ! Suc 0 = arr_v s3 ! 0 +
           (- (1\<^sup>2 * arr_x s3 ! 0) - 2 * (1/2 * 1) * arr_v s3 ! 0
            + 1 * sin (2 * arr_t s3 ! 0)) * (100 * pi / 2 / real_of_int 2)"
    by blast
  ultimately show ?thesis using s2(1) s3(1) a l h by blast
qed

subsection \<open>Claim C7\<close>

text \<open>
  C7. For an angular frequency \<open>om \<noteq> 0\<close>, \<open>ex_sol\<close> returns a pair of arrays as long as the
  array of times, whose entries at every index \<open>k\<close> are
  \<open>x0 * cos (om * t\<^sub>k) + (v0 / om) * sin (om * t\<^sub>k)\<close> and
  \<open>- x0 * om * sin (om * t\<^sub>k) + v0 * cos (om * t\<^sub>k)\<close>.
\<close>

theorem ex_sol_pointwise:
  assumes "om \<noteq> 0"
  shows "\<exists>xs vs. ex_sol t om x0 v0 = Inr (xs, vs)
           \<and> length xs = length t \<and> length vs = length t
           \<and> (\<forall>k<length t.
                 xs ! k = x0 * cos (om * (t ! k)) + (v0 / om) * sin (om * (t ! k))
               \<and> vs ! k = - x0 * om * sin (om * (t ! k)) + v0 * cos (om * (t ! k)))"
  unfolding ex_sol_ok [OF assms] by simp

theorem ex_sol_pointwise_witness:
  "(2::real) \<noteq> 0 \<and> ex_sol [0] 2 3 4 = Inr ([3], [4]) \<and>
   (\<exists>xs vs. ex_sol [0] 2 3 4 = Inr (xs, vs)
           \<and> length xs = length [0::real] \<and> length vs = length [0::real]
           \<and> xs ! 0 = 3 * cos (2 * ([0] ! 0)) + (4 / 2) * sin (2 * ([0] ! 0))
           \<and> vs ! 0 = - 3 * 2 * sin (2 * ([0] ! 0)) + 4 * cos (2 * ([0] ! 0)))"
proof -
  have h: "(2::real) \<noteq> 0" by simp
  have a: "ex_sol [0] 2 3 4 = Inr ([3], [4])"
    by (simp add: ex_sol_def true_div_def bind_res_def)
  from ex_sol_pointwise [OF h, of "[0]" 3 4] obtain xs vs where
    r: "ex_sol [0] 2 3 4 = Inr (xs, vs)"
       "length xs = length [0::real]" "length vs = length [0::real]"
       "\<forall>k<length [0::real].
                 xs ! k = 3 * cos (2 * ([0] ! k)) + (4 / 2) * sin (2 * ([0] ! k))
               \<and> vs ! k = - 3 * 2 * sin (2 * ([0] ! k)) + 4 * cos (2 * ([0] ! k))"
    by blast
  have "(0::nat) < length [0::real]" by simp
  with r(4) have "xs ! 0 = 3 * cos (2 * ([0] ! 0)) + (4 / 2) * sin (2 * ([0] ! 0))
           \<and> vs ! 0 = - 3 * 2 * sin (2 * ([0] ! 0)) + 4 * cos (2 * ([0] ! 0))"
    by blast
  with r(1,2,3) a h show ?thesis by blast
qed

subsection \<open>Claim C8\<close>

text \<open>
  C8, as the specification states it, fails: a time range \<open>tmax \<le> 0\<close> is not rejected. With
  \<open>N = 1\<close>, \<open>om = 1\<close>, \<open>x0 = 1\<close>, \<open>v0 = 0\<close> and \<open>tmax = - 1\<close> the Euler-Cromer run of cell 1
  returns a complete trajectory, computed with the negative step \<open>dt = - 1\<close>.
\<close>

theorem nonpositive_tmax_not_rejected:
  "cell_undamped 1 1 1 0 True False False (- 1)
     = Inr (\<lparr>arr_t = [0, - 1], arr_x = [1, 0], arr_v = [0, 1]\<rparr>, None)"
  by (simp add: cell_eval acc_def eval_nat_numeral)

text \<open>
  C8, amended. The cells validate nothing; what stops a run is an error of an operation that
  cannot be carried out. In cell 1, \<open>N = 0\<close> stops with ZeroDivisionError at \<open>dt = tmax/N\<close>,
  \<open>N = - 1\<close> with IndexError at \<open>x[0] = x0\<close> and \<open>N < - 1\<close> with ValueError in
  \<open>np.linspace\<close>, each before the first loop, and \<open>ex_sol\<close> with \<open>om = 0\<close> stops with
  ZeroDivisionError. The value of \<open>tmax\<close> is never checked: the error that stops a run, if
  any, is the same for every \<open>tmax\<close>, positive or not. And a run that returns has returned a
  complete trajectory: \<open>N + 1\<close> samples that start at \<open>x0\<close>, \<open>v0\<close> and follow the update rule
  of the last loop run at every step.
\<close>

theorem tmax_is_not_validated:
  "(N = 0 \<longrightarrow> cell_undamped N om x0 v0 ec eu ex tmax = Inl ZeroDivisionError)
   \<and> (N = - 1 \<longrightarrow> cell_undamped N om x0 v0 ec eu ex tmax = Inl IndexError)
   \<and> (N < - 1 \<longrightarrow> cell_undamped N om x0 v0 ec eu ex tmax = Inl ValueError)
   \<and> ex_sol t 0 x0 v0 = Inl ZeroDivisionError
   \<and> (\<forall>e. cell_undamped N om x0 v0 ec eu ex tmax = Inl e
           \<longleftrightarrow> cell_undamped N om x0 v0 ec eu ex tmax' = Inl e)
   \<and> (\<forall>s r. cell_undamped N om x0 v0 ec eu ex tmax = Inr (s, r) \<longrightarrow>
         int (length (arr_t s)) = N + 1 \<and> int (length (arr_x s)) = N + 1
       \<and> int (length (arr_v s)) = N + 1 \<and> arr_x s ! 0 = x0 \<and> arr_v s ! 0 = v0
       \<and> (ec \<or> eu \<longrightarrow> (\<forall>i<nat N.
             arr_v s ! Suc i = arr_v s ! i + acc (arr_x s ! i) om * (tmax / real_of_int N)
           \<and> arr_x s ! Suc i = arr_x s ! i
               + (if eu then arr_v s ! i else arr_v s ! Suc i) * (tmax / real_of_int N))))"
proof -
  have fail: "cell_undamped N om x0 v0 ec eu ex T = Inl ZeroDivisionError"
    if "1 \<le> N" "ex" "om = 0" for T
  proof -
    from cell_undamped_split [OF that(1), of T x0 v0 eu om ec ex] obtain s where
      s: "cell_undamped N om x0 v0 ec eu ex T =
               bind_res (if ex
                         then bind_res (np_linspace 0 T 100) (\<lambda>t_ex.
                              bind_res (ex_sol t_ex om x0 v0) (\<lambda>r. Inr (Some r)))
                         else Inr None) (\<lambda>e. Inr (s, e))"
      by blast
    show ?thesis
      unfolding s using that(2,3)
      by (simp add: np_linspace_def Let_def ex_sol_def true_div_def bind_res_def)
  qed
  have ok: "\<exists>s r. cell_undamped N om x0 v0 ec eu ex T = Inr (s, r)
            \<and> trajectory_of N T x0 v0 s
            \<and> (eu \<longrightarrow> follows_scheme Euler (\<lambda>j x v. acc x om) (T / real_of_int N) (nat N) s)
            \<and> (ec \<and> \<not> eu \<longrightarrow>
                 follows_scheme EulerCromer (\<lambda>j x v. acc x om) (T / real_of_int N) (nat N) s)"
    if "1 \<le> N" "\<not> (ex \<and> om = 0)" for T
  proof -
    from that(2) have "ex \<longrightarrow> om \<noteq> 0" by blast
    from cell_undamped_ok [OF that(1) this, of x0 v0 ec eu T] show ?thesis by blast
  qed
  have same: "cell_undamped N om x0 v0 ec eu ex tmax = Inl e
           \<longleftrightarrow> cell_undamped N om x0 v0 ec eu ex tmax' = Inl e" for e
  proof (cases "N < 1")
    case True
    then show ?thesis by (simp only: cell_undamped_not_started)
  next
    case False
    then have N: "1 \<le> N" by simp
    show ?thesis
    proof (cases "ex \<and> om = 0")
      case True
      then show ?thesis using fail [OF N, of tmax] fail [OF N, of tmax'] by simp
    next
      case False
      from ok [OF N False, of tmax] ok [OF N False, of tmax'] show ?thesis by auto
    qed
  qed
  have complete: "int (length (arr_t s)) = N + 1 \<and> int (length (arr_x s)) = N + 1
       \<and> int (length (arr_v s)) = N + 1 \<and> arr_x s ! 0 = x0 \<and> arr_v s ! 0 = v0
       \<and> (ec \<or> eu \<longrightarrow> (\<forall>i<nat N.
             arr_v s ! Suc i = arr_v s ! i + acc (arr_x s ! i) om * (tmax / real_of_int N)
           \<and> arr_x s ! Suc i = arr_x s ! i
               + (if eu then arr_v s ! i else arr_v s ! Suc i) * (tmax / real_of_int N)))"
    if r: "cell_undamped N om x0 v0 ec eu ex tmax = Inr (s, r)" for s r
  proof -
    have N: "1 \<le> N"
    proof (rule ccontr)
      assume "\<not> 1 \<le> N"
      then have "N < 1" by simp
      from cell_undamped_not_started [OF this, of om x0 v0 ec eu ex tmax] r show False
        by (simp split: if_splits)
    qed
    have nf: "\<not> (ex \<and> om = 0)"
    proof
      assume "ex \<and> om = 0"
      with fail [OF N, of tmax] r show False by simp
    qed
    from ok [OF N nf, of tmax] r have
      tr: "trajectory_of N tmax x0 v0 s"
      and eu: "eu \<longrightarrow> follows_scheme Euler (\<lambda>j x v. acc x om) (tmax / real_of_int N) (nat N) s"
      and ec: "ec \<and> \<not> eu \<longrightarrow>
                 follows_scheme EulerCromer (\<lambda>j x v. acc x om) (tmax / real_of_int N) (nat N) s"
      by auto
    from tr N have "int (length (arr_t s)) = N + 1 \<and> int (length (arr_x s)) = N + 1
       \<and> int (length (arr_v s)) = N + 1 \<and> arr_x s ! 0 = x0 \<and> arr_v s ! 0 = v0"
      by (simp add: trajectory_of_def)
    moreover have "ec \<or> eu \<longrightarrow> (\<forall>i<nat N.
             arr_v s ! Suc i = arr_v s ! i + acc (arr_x s ! i) om * (tmax / real_of_int N)
           \<and> arr_x s ! Suc i = arr_x s ! i
               + (if eu then arr_v s ! i else arr_v s ! Suc i) * (tmax / real_of_int N))"
      using eu ec unfolding follows_scheme_def by (cases eu) auto
    ultimately show ?thesis by blast
  qed
  have "N = 0 \<longrightarrow> cell_undamped N om x0 v0 ec eu ex tmax = Inl ZeroDivisionError"
    "N = - 1 \<longrightarrow> cell_undamped N om x0 v0 ec eu ex tmax = Inl IndexError"
    "N < - 1 \<longrightarrow> cell_undamped N om x0 v0 ec eu ex tmax = Inl ValueError"
    by (simp_all add: cell_undamped_not_started)
  moreover have "ex_sol t 0 x0 v0 = Inl ZeroDivisionError"
    by (simp add: ex_sol_def true_div_def bind_res_def)
  ultimately show ?thesis using same complete by blast
qed

theorem tmax_is_not_validated_witness:
  "cell_undamped 0 5 (1/2) 5 True False False 5 = Inl ZeroDivisionError
   \<and> cell_undamped (- 1) 5 (1/2) 5 True False False 5 = Inl IndexError
   \<and> cell_undamped (- 2) 5 (1/2) 5 True False False 5 = Inl ValueError
   \<and> ex_sol [0, 1] 0 (1/2) 5 = Inl ZeroDivisionError
   \<and> cell_undamped 0 5 (1/2) 5 True False False (- 5) = Inl ZeroDivisionError
   \<and> cell_undamped 2 1 1 0 True False False (- 1)
       = Inr (\<lparr>arr_t = [0, - 1/2, - 1], arr_x = [1, 3/4, 5/16], arr_v = [0, 1/2, 7/8]\<rparr>, None)
   \<and> int (length [1, 3/4, 5/16 :: real]) = 2 + 1
   \<and> [0, 1/2, 7/8] ! Suc 1 = [0, 1/2, 7/8] ! 1 + acc ([1, 3/4, 5/16] ! 1) 1 * (- 1 / real_of_int 2)
   \<and> [1, 3/4, 5/16] ! Suc 1 = [1, 3/4, 5/16] ! 1 + [0, 1/2, 7/8] ! Suc 1 * (- 1 / real_of_int 2)"
proof -
  note g = tmax_is_not_validated
  have 1: "cell_undamped 0 5 (1/2) 5 True False False 5 = Inl ZeroDivisionError"
    using g [THEN conjunct1, of 0 5 "1/2" 5 True False False 5] by simp
  have 2: "cell_undamped (- 1) 5 (1/2) 5 True False False 5 = Inl IndexError"
    using g [THEN conjunct2, THEN conjunct1, of "- 1" 5 "1/2" 5 True False False 5] by simp
  have 3: "cell_undamped (- 2) 5 (1/2) 5 True False False 5 = Inl ValueError"
    using g [THEN conjunct2, THEN conjunct2, THEN conjunct1, of "- 2" 5 "1/2" 5 True False False 5]
    by simp
  have 4: "ex_sol [0, 1] 0 (1/2) 5 = Inl ZeroDivisionError"
    using g [THEN conjunct2, THEN conjunct2, THEN conjunct2, THEN conjunct1, of "[0, 1]" "1/2" 5]
    by simp
  have 5: "cell_undamped 0 5 (1/2) 5 True False False (- 5) = Inl ZeroDivisionError"
    using g [THEN conjunct2, THEN conjunct2, THEN conjunct2, THEN conjunct2, THEN conjunct1,
        rule_format, of 0 5 "1/2" 5 True False False 5 ZeroDivisionError "- 5"] 1
    by simp
  have a: "cell_undamped 2 1 1 0 True False False (- 1)
       = Inr (\<lparr>arr_t = [0, - 1/2, - 1], arr_x = [1, 3/4, 5/16], arr_v = [0, 1/2, 7/8]\<rparr>, None)"
    by (simp add: cell_eval acc_def eval_nat_numeral)
  note c = g [THEN conjunct2, THEN conjunct2, THEN conjunct2, THEN conjunct2, THEN conjunct2,
      rule_format, OF a]
  have i: "(1::nat) < nat 2" by simp
  from c have 6: "int (length [1, 3/4, 5/16 :: real]) = 2 + 1" by simp
  from c have "\<forall>i<nat 2.
             [0, 1/2, 7/8] ! Suc i = [0, 1/2, 7/8] ! i + acc ([1, 3/4, 5/16] ! i) 1 * (- 1 / real_of_int 2)
           \<and> [1, 3/4, 5/16] ! Suc i = [1, 3/4, 5/16] ! i
               + (if False then [0, 1/2, 7/8] ! i else [0, 1/2, 7/8] ! Suc i) * (- 1 / real_of_int 2)"
    by simp
  with i have 7: "[0, 1/2, 7/8] ! Suc 1 = [0, 1/2, 7/8] ! 1 + acc ([1, 3/4, 5/16] ! 1) 1 * (- 1 / real_of_int 2)
           \<and> [1, 3/4, 5/16] ! Suc 1 = [1, 3/4, 5/16] ! 1
               + (if False then [0, 1/2, 7/8] ! 1 else [0, 1/2, 7/8] ! Suc 1) * (- 1 / real_of_int 2)"
    by blast
  then have 8: "[0, 1/2, 7/8] ! Suc 1 = [0, 1/2, 7/8] ! 1 + acc ([1, 3/4, 5/16] ! 1) 1 * (- 1 / real_of_int 2)"
    "[1, 3/4, 5/16] ! Suc 1 = [1, 3/4, 5/16] ! 1 + [0, 1/2, 7/8] ! Suc 1 * (- 1 / real_of_int 2)"
    by simp_all
  from 1 2 3 4 5 a 6 8 show ?thesis by (intro conjI)
qed

subsection \<open>Claim C9\<close>

text \<open>
  C9, as the specification states it, fails: the two loops of cell 1 write the same arrays.
  With \<open>N = 1\<close>, \<open>om = 1\<close>, \<open>x0 = 1\<close>, \<open>v0 = 0\<close>, \<open>tmax = 1\<close> the Euler-Cromer loop leaves
  \<open>x = [1, 0]\<close>, and the Euler loop that follows it changes this array to \<open>x = [1, 1]\<close>, which
  is what the cell returns.
\<close>

theorem euler_loop_overwrites_euler_cromer_arrays:
  "init_arrays 1 1 1 0 = Inr \<lparr>arr_t = [0, 1], arr_x = [1, 0], arr_v = [0, 0]\<rparr>
   \<and> for_range (loop_body EulerCromer (a_undamped 1) 1) (range0 1)
        \<lparr>arr_t = [0, 1], arr_x = [1, 0], arr_v = [0, 0]\<rparr>
        = Inr \<lparr>arr_t = [0, 1], arr_x = [1, 0], arr_v = [0, - 1]\<rparr>
   \<and> for_range (loop_body Euler (a_undamped 1) 1) (range0 1)
        \<lparr>arr_t = [0, 1], arr_x = [1, 0], arr_v = [0, - 1]\<rparr>
        = Inr \<lparr>arr_t = [0, 1], arr_x = [1, 1], arr_v = [0, - 1]\<rparr>
   \<and> [1, 1] \<noteq> [1, 0 :: real]
   \<and> cell_undamped 1 1 1 0 True True False 1
        = Inr (\<lparr>arr_t = [0, 1], arr_x = [1, 1], arr_v = [0, - 1]\<rparr>, None)"
  by (simp add: cell_eval acc_def eval_nat_numeral)

text \<open>
  C9, amended. The Euler-Cromer loop and the Euler loop of cell 1 share the arrays \<open>x\<close> and
  \<open>v\<close>, and the Euler loop overwrites what the Euler-Cromer loop left there. The Euler loop
  writes every entry before it reads it and starts from \<open>x[0]\<close>, \<open>v[0]\<close>, which no loop
  changes, so the Euler trajectory does not depend on the Euler-Cromer run: the cell with both
  runs returns exactly what the cell with the Euler run alone returns, for all inputs.
\<close>

theorem euler_run_independent_of_euler_cromer_run:
  "cell_undamped N om x0 v0 True True ex tmax = cell_undamped N om x0 v0 False True ex tmax"
proof (cases "1 \<le> N")
  case True
  from cell_undamped_split [OF True, of tmax x0 v0 True om True ex] obtain s where
    s: "trajectory_of N tmax x0 v0 s"
       "follows_scheme Euler (\<lambda>j x v. acc x om) (tmax / real_of_int N) (nat N) s"
       "cell_undamped N om x0 v0 True True ex tmax =
               bind_res (if ex
                         then bind_res (np_linspace 0 tmax 100) (\<lambda>t_ex.
                              bind_res (ex_sol t_ex om x0 v0) (\<lambda>r. Inr (Some r)))
                         else Inr None) (\<lambda>e. Inr (s, e))"
    by blast
  from cell_undamped_split [OF True, of tmax x0 v0 True om False ex] obtain u where
    u: "trajectory_of N tmax x0 v0 u"
       "follows_scheme Euler (\<lambda>j x v. acc x om) (tmax / real_of_int N) (nat N) u"
       "cell_undamped N om x0 v0 False True ex tmax =
               bind_res (if ex
                         then bind_res (np_linspace 0 tmax 100) (\<lambda>t_ex.
                              bind_res (ex_sol t_ex om x0 v0) (\<lambda>r. Inr (Some r)))
                         else Inr None) (\<lambda>e. Inr (u, e))"
    by blast
  have "s = u"
    by (rule trajectory_eqI [OF s(1) u(1) trajectory_t_eq [OF s(1) u(1)] s(2) u(2)])
  then show ?thesis unfolding s(3) u(3) by simp
next
  case False
  then have "N < 1" by simp
  then show ?thesis by (simp only: cell_undamped_not_started)
qed

theorem euler_run_independent_of_euler_cromer_run_witness:
  "cell_undamped 2 1 1 0 True True False 1 = cell_undamped 2 1 1 0 False True False 1
   \<and> cell_undamped 2 1 1 0 False True False 1
       = Inr (\<lparr>arr_t = [0, 1/2, 1], arr_x = [1, 1, 3/4], arr_v = [0, -1/2, -1]\<rparr>, None)"
proof -
  have "cell_undamped 2 1 1 0 False True False 1
       = Inr (\<lparr>arr_t = [0, 1/2, 1], arr_x = [1, 1, 3/4], arr_v = [0, -1/2, -1]\<rparr>, None)"
    by (simp add: cell_eval acc_def eval_nat_numeral)
  with euler_run_independent_of_euler_cromer_run [of 2 1 1 0 False 1] show ?thesis
    by (intro conjI)
qed

subsection \<open>Claim C10\<close>

text \<open>
  C10. In the loops of cell 2 and cell 3, started on arrays \<open>x\<close> and \<open>v\<close> of \<open>M + 1\<close>
  entries, iteration \<open>i < M\<close> returns and changes \<open>x\<close> and \<open>v\<close> at index \<open>i + 1\<close> only, and
  \<open>t\<close> nowhere; and running the iterations \<open>i, ..., n - 1\<close> (for any \<open>n\<close> up to \<open>M\<close>) leaves
  every entry \<open>x\<^sub>k\<close>, \<open>v\<^sub>k\<close> with \<open>k \<le> i\<close> and the array \<open>t\<close> as they were before iteration \<open>i\<close>.
  So in a run of cell 2 with \<open>N \<ge> 1\<close>, after any number \<open>n \<le> N\<close> of iterations the first
  samples are still the initial conditions.
\<close>

theorem iteration_writes_next_index_only:
  assumes "length (arr_x s) = Suc M" and "length (arr_v s) = Suc M" and "i < M" and "1 \<le> N"
  shows "(\<exists>s1. loop_body EulerCromer (a_damped om ze) dt i s = Inr s1 \<and> arr_t s1 = arr_t s
            \<and> (\<forall>k. k \<noteq> Suc i \<longrightarrow> arr_x s1 ! k = arr_x s ! k \<and> arr_v s1 ! k = arr_v s ! k))
       \<and> (\<forall>n. i \<le> n \<and> n \<le> M \<longrightarrow>
            (\<exists>s'. for_range (loop_body EulerCromer (a_damped om ze) dt) [i..<n] s = Inr s'
               \<and> arr_t s' = arr_t s
               \<and> (\<forall>k\<le>i. arr_x s' ! k = arr_x s ! k \<and> arr_v s' ! k = arr_v s ! k)))
       \<and> (\<exists>s1. loop_body EulerCromer (a_driven dt' om ze a0 om_d) dt i s = Inr s1
            \<and> arr_t s1 = arr_t s
            \<and> (\<forall>k. k \<noteq> Suc i \<longrightarrow> arr_x s1 ! k = arr_x s ! k \<and> arr_v s1 ! k = arr_v s ! k))
       \<and> (\<forall>n. i \<le> n \<and> n \<le> M \<longrightarrow>
            (\<exists>s'. for_range (loop_body EulerCromer (a_driven dt' om ze a0 om_d) dt) [i..<n] s = Inr s'
               \<and> arr_t s' = arr_t s
               \<and> (\<forall>k\<le>i. arr_x s' ! k = arr_x s ! k \<and> arr_v s' ! k = arr_v s ! k)))
       \<and> (\<forall>n\<le>nat N. \<exists>s0 sn. init_arrays N tmax x0 v0 = Inr s0
            \<and> for_range (loop_body EulerCromer (a_damped om ze) dt) [0..<n] s0 = Inr sn
            \<and> arr_x sn ! 0 = x0 \<and> arr_v sn ! 0 = v0)"
proof -
  note d = loop_frame [where a_of = "a_damped om ze"
      and law = "\<lambda>j x v. acc_damped x v om (ze * om)" and sch = EulerCromer and dt = dt,
      OF assms(1,2,3) a_damped_law]
  note r = loop_frame [where a_of = "a_driven dt' om ze a0 om_d"
      and law = "\<lambda>j x v. acc_driven (real j * dt') x v om (ze * om) a0 om_d"
      and sch = EulerCromer and dt = dt, OF assms(1,2,3) a_driven_law]
  have c: "\<forall>n\<le>nat N. \<exists>s0 sn. init_arrays N tmax x0 v0 = Inr s0
            \<and> for_range (loop_body EulerCromer (a_damped om ze) dt) [0..<n] s0 = Inr sn
            \<and> arr_x sn ! 0 = x0 \<and> arr_v sn ! 0 = v0"
  proof (intro allI impI)
    fix n assume n: "n \<le> nat N"
    from init_arrays_trajectory [OF assms(4), of tmax x0 v0] obtain s0 where
      s0: "init_arrays N tmax x0 v0 = Inr s0" "trajectory_of N tmax x0 v0 s0" by blast
    then have len: "length (arr_x s0) = Suc (nat N)" "length (arr_v s0) = Suc (nat N)"
      and z: "arr_x s0 ! 0 = x0" "arr_v s0 ! 0 = v0"
      by (simp_all add: trajectory_of_def)
    have le: "(0::nat) \<le> n" by simp
    from loop_from [where a_of = "a_damped om ze"
        and law = "\<lambda>j x v. acc_damped x v om (ze * om)" and sch = EulerCromer and dt = dt,
        OF len a_damped_law le n]
    obtain sn where sn: "for_range (loop_body EulerCromer (a_damped om ze) dt) [0..<n] s0 = Inr sn"
      "\<forall>k. k \<le> 0 \<or> n < k \<longrightarrow> arr_x sn ! k = arr_x s0 ! k \<and> arr_v sn ! k = arr_v s0 ! k"
      by blast
    from sn(2) z have "arr_x sn ! 0 = x0" "arr_v sn ! 0 = v0" by simp_all
    with s0(1) sn(1) show "\<exists>s0 sn. init_arrays N tmax x0 v0 = Inr s0
            \<and> for_range (loop_body EulerCromer (a_damped om ze) dt) [0..<n] s0 = Inr sn
            \<and> arr_x sn ! 0 = x0 \<and> arr_v sn ! 0 = v0" by blast
  qed
  from d r c show ?thesis by blast
qed

theorem iteration_writes_next_index_only_witness:
  "length (arr_x \<lparr>arr_t = [0, 1/2, 1], arr_x = [1, 3/4, 0], arr_v = [0, -1/2, 0]\<rparr>) = Suc 2 \<and> length (arr_v \<lparr>arr_t = [0, 1/2, 1], arr_x = [1, 3/4, 0], arr_v = [0, -1/2, 0]\<rparr>) = Suc 2 \<and> (1::nat) < 2 \<and> (1::int) \<le> 2 \<and>
   loop_body EulerCromer (a_damped 1 (1/2)) (1/2) 1 \<lparr>arr_t = [0, 1/2, 1], arr_x = [1, 3/4, 0], arr_v = [0, -1/2, 0]\<rparr>
     = Inr \<lparr>arr_t = [0, 1/2, 1], arr_x = [1, 3/4, 7/16], arr_v = [0, -1/2, -5/8]\<rparr> \<and>
   (\<exists>s1. loop_body EulerCromer (a_damped 1 (1/2)) (1/2) 1 \<lparr>arr_t = [0, 1/2, 1], arr_x = [1, 3/4, 0], arr_v = [0, -1/2, 0]\<rparr> = Inr s1
       \<and> arr_t s1 = arr_t \<lparr>arr_t = [0, 1/2, 1], arr_x = [1, 3/4, 0], arr_v = [0, -1/2, 0]\<rparr>
       \<and> arr_x s1 ! 0 = arr_x \<lparr>arr_t = [0, 1/2, 1], arr_x = [1, 3/4, 0], arr_v = [0, -1/2, 0]\<rparr> ! 0 \<and> arr_v s1 ! 0 = arr_v \<lparr>arr_t = [0, 1/2, 1], arr_x = [1, 3/4, 0], arr_v = [0, -1/2, 0]\<rparr> ! 0
       \<and> arr_x s1 ! 1 = arr_x \<lparr>arr_t = [0, 1/2, 1], arr_x = [1, 3/4, 0], arr_v = [0, -1/2, 0]\<rparr> ! 1 \<and> arr_v s1 ! 1 = arr_v \<lparr>arr_t = [0, 1/2, 1], arr_x = [1, 3/4, 0], arr_v = [0, -1/2, 0]\<rparr> ! 1) \<and>
   (\<exists>s'. for_range (loop_body EulerCromer (a_damped 1 (1/2)) (1/2)) [1..<2] \<lparr>arr_t = [0, 1/2, 1], arr_x = [1, 3/4, 0], arr_v = [0, -1/2, 0]\<rparr> = Inr s'
       \<and> arr_t s' = arr_t \<lparr>arr_t = [0, 1/2, 1], arr_x = [1, 3/4, 0], arr_v = [0, -1/2, 0]\<rparr>
       \<and> arr_x s' ! 1 = arr_x \<lparr>arr_t = [0, 1/2, 1], arr_x = [1, 3/4, 0], arr_v = [0, -1/2, 0]\<rparr> ! 1 \<and> arr_v s' ! 1 = arr_v \<lparr>arr_t = [0, 1/2, 1], arr_x = [1, 3/4, 0], arr_v = [0, -1/2, 0]\<rparr> ! 1) \<and>
   (\<exists>s1. loop_body EulerCromer (a_driven (1/2) 1 (1/2) 1 2) (1/2) 1 \<lparr>arr_t = [0, 1/2, 1], arr_x = [1, 3/4, 0], arr_v = [0, -1/2, 0]\<rparr> = Inr s1
       \<and> arr_t s1 = arr_t \<lparr>arr_t = [0, 1/2, 1], arr_x = [1, 3/4, 0], arr_v = [0, -1/2, 0]\<rparr>
       \<and> arr_x s1 ! 1 = arr_x \<lparr>arr_t = [0, 1/2, 1], arr_x = [1, 3/4, 0], arr_v = [0, -1/2, 0]\<rparr> ! 1 \<and> arr_v s1 ! 1 = arr_v \<lparr>arr_t = [0, 1/2, 1], arr_x = [1, 3/4, 0], arr_v = [0, -1/2, 0]\<rparr> ! 1) \<and>
   (\<exists>s'. for_range (loop_body EulerCromer (a_driven (1/2) 1 (1/2) 1 2) (1/2)) [1..<2] \<lparr>arr_t = [0, 1/2, 1], arr_x = [1, 3/4, 0], arr_v = [0, -1/2, 0]\<rparr> = Inr s'
       \<and> arr_t s' = arr_t \<lparr>arr_t = [0, 1/2, 1], arr_x = [1, 3/4, 0], arr_v = [0, -1/2, 0]\<rparr>
       \<and> arr_x s' ! 1 = arr_x \<lparr>arr_t = [0, 1/2, 1], arr_x = [1, 3/4, 0], arr_v = [0, -1/2, 0]\<rparr> ! 1 \<and> arr_v s' ! 1 = arr_v \<lparr>arr_t = [0, 1/2, 1], arr_x = [1, 3/4, 0], arr_v = [0, -1/2, 0]\<rparr> ! 1) \<and>
   (\<exists>s0 sn. init_arrays 2 1 1 0 = Inr s0
       \<and> for_range (loop_body EulerCromer (a_damped 1 (1/2)) (1/2)) [0..<2] s0 = Inr sn
       \<and> arr_x sn ! 0 = 1 \<and> arr_v sn ! 0 = 0)"
proof -
  have h: "length (arr_x \<lparr>arr_t = [0, 1/2, 1], arr_x = [1, 3/4, 0], arr_v = [0, -1/2, 0]\<rparr>) = Suc 2" "length (arr_v \<lparr>arr_t = [0, 1/2, 1], arr_x = [1, 3/4, 0], arr_v = [0, -1/2, 0]\<rparr>) = Suc 2" "(1::nat) < 2" "(1::int) \<le> 2"
    by simp_all
  have a: "loop_body EulerCromer (a_damped 1 (1/2)) (1/2) 1 \<lparr>arr_t = [0, 1/2, 1], arr_x = [1, 3/4, 0], arr_v = [0, -1/2, 0]\<rparr>
     = Inr \<lparr>arr_t = [0, 1/2, 1], arr_x = [1, 3/4, 7/16], arr_v = [0, -1/2, -5/8]\<rparr>"
    by (simp add: cell_eval acc_damped_def eval_nat_numeral)
  note g = iteration_writes_next_index_only [where M = 2 and i = 1 and N = 2 and om = 1
      and ze = "1/2" and dt = "1/2" and dt' = "1/2" and ?a0.0 = 1 and om_d = 2 and tmax = 1
      and ?x0.0 = 1 and ?v0.0 = 0, OF h]
  note g1 = g [THEN conjunct1]
  note g2 = g [THEN conjunct2, THEN conjunct1, rule_format, of 2]
  note g3 = g [THEN conjunct2, THEN conjunct2, THEN conjunct1]
  note g4 = g [THEN conjunct2, THEN conjunct2, THEN conjunct2, THEN conjunct1, rule_format, of 2]
  note g5 = g [THEN conjunct2, THEN conjunct2, THEN conjunct2, THEN conjunct2, rule_format, of 2]
  from g1 obtain s1 where s1: "loop_body EulerCromer (a_damped 1 (1/2)) (1/2) 1 \<lparr>arr_t = [0, 1/2, 1], arr_x = [1, 3/4, 0], arr_v = [0, -1/2, 0]\<rparr> = Inr s1"
    "arr_t s1 = arr_t \<lparr>arr_t = [0, 1/2, 1], arr_x = [1, 3/4, 0], arr_v = [0, -1/2, 0]\<rparr>"
    "\<forall>k. k \<noteq> Suc 1 \<longrightarrow> arr_x s1 ! k = arr_x \<lparr>arr_t = [0, 1/2, 1], arr_x = [1, 3/4, 0], arr_v = [0, -1/2, 0]\<rparr> ! k \<and> arr_v s1 ! k = arr_v \<lparr>arr_t = [0, 1/2, 1], arr_x = [1, 3/4, 0], arr_v = [0, -1/2, 0]\<rparr> ! k"
    by blast
  from s1(3) have "arr_x s1 ! 0 = arr_x \<lparr>arr_t = [0, 1/2, 1], arr_x = [1, 3/4, 0], arr_v = [0, -1/2, 0]\<rparr> ! 0 \<and> arr_v s1 ! 0 = arr_v \<lparr>arr_t = [0, 1/2, 1], arr_x = [1, 3/4, 0], arr_v = [0, -1/2, 0]\<rparr> ! 0"
    "arr_x s1 ! 1 = arr_x \<lparr>arr_t = [0, 1/2, 1], arr_x = [1, 3/4, 0], arr_v = [0, -1/2, 0]\<rparr> ! 1 \<and> arr_v s1 ! 1 = arr_v \<lparr>arr_t = [0, 1/2, 1], arr_x = [1, 3/4, 0], arr_v = [0, -1/2, 0]\<rparr> ! 1"
    by simp_all
  with s1(1,2) have 1: "\<exists>s1. loop_body EulerCromer (a_damped 1 (1/2)) (1/2) 1 \<lparr>arr_t = [0, 1/2, 1], arr_x = [1, 3/4, 0], arr_v = [0, -1/2, 0]\<rparr> = Inr s1
       \<and> arr_t s1 = arr_t \<lparr>arr_t = [0, 1/2, 1], arr_x = [1, 3/4, 0], arr_v = [0, -1/2, 0]\<rparr>
       \<and> arr_x s1 ! 0 = arr_x \<lparr>arr_t = [0, 1/2, 1], arr_x = [1, 3/4, 0], arr_v = [0, -1/2, 0]\<rparr> ! 0 \<and> arr_v s1 ! 0 = arr_v \<lparr>arr_t = [0, 1/2, 1], arr_x = [1, 3/4, 0], arr_v = [0, -1/2, 0]\<rparr> ! 0
       \<and> arr_x s1 ! 1 = arr_x \<lparr>arr_t = [0, 1/2, 1], arr_x = [1, 3/4, 0], arr_v = [0, -1/2, 0]\<rparr> ! 1 \<and> arr_v s1 ! 1 = arr_v \<lparr>arr_t = [0, 1/2, 1], arr_x = [1, 3/4, 0], arr_v = [0, -1/2, 0]\<rparr> ! 1"
    by blast
  from g2 obtain s2 where s2:
    "for_range (loop_body EulerCromer (a_damped 1 (1/2)) (1/2)) [1..<2] \<lparr>arr_t = [0, 1/2, 1], arr_x = [1, 3/4, 0], arr_v = [0, -1/2, 0]\<rparr> = Inr s2"
    "arr_t s2 = arr_t \<lparr>arr_t = [0, 1/2, 1], arr_x = [1, 3/4, 0], arr_v = [0, -1/2, 0]\<rparr>"
    "\<forall>k\<le>1. arr_x s2 ! k = arr_x \<lparr>arr_t = [0, 1/2, 1], arr_x = [1, 3/4, 0], arr_v = [0, -1/2, 0]\<rparr> ! k \<and> arr_v s2 ! k = arr_v \<lparr>arr_t = [0, 1/2, 1], arr_x = [1, 3/4, 0], arr_v = [0, -1/2, 0]\<rparr> ! k"
    by auto
  from s2(3) have "arr_x s2 ! 1 = arr_x \<lparr>arr_t = [0, 1/2, 1], arr_x = [1, 3/4, 0], arr_v = [0, -1/2, 0]\<rparr> ! 1 \<and> arr_v s2 ! 1 = arr_v \<lparr>arr_t = [0, 1/2, 1], arr_x = [1, 3/4, 0], arr_v = [0, -1/2, 0]\<rparr> ! 1"
    by simp
  with s2(1,2) have 2: "\<exists>s'. for_range (loop_body EulerCromer (a_damped 1 (1/2)) (1/2)) [1..<2] \<lparr>arr_t = [0, 1/2, 1], arr_x = [1, 3/4, 0], arr_v = [0, -1/2, 0]\<rparr> = Inr s'
       \<and> arr_t s' = arr_t \<lparr>arr_t = [0, 1/2, 1], arr_x = [1, 3/4, 0], arr_v = [0, -1/2, 0]\<rparr>
       \<and> arr_x s' ! 1 = arr_x \<lparr>arr_t = [0, 1/2, 1], arr_x = [1, 3/4, 0], arr_v = [0, -1/2, 0]\<rparr> ! 1 \<and> arr_v s' ! 1 = arr_v \<lparr>arr_t = [0, 1/2, 1], arr_x = [1, 3/4, 0], arr_v = [0, -1/2, 0]\<rparr> ! 1"
    by blast
  from g3 obtain s3 where s3:
    "loop_body EulerCromer (a_driven (1/2) 1 (1/2) 1 2) (1/2) 1 \<lparr>arr_t = [0, 1/2, 1], arr_x = [1, 3/4, 0], arr_v = [0, -1/2, 0]\<rparr> = Inr s3"
    "arr_t s3 = arr_t \<lparr>arr_t = [0, 1/2, 1], arr_x = [1, 3/4, 0], arr_v = [0, -1/2, 0]\<rparr>"
    "\<forall>k. k \<noteq> Suc 1 \<longrightarrow> arr_x s3 ! k = arr_x \<lparr>arr_t = [0, 1/2, 1], arr_x = [1, 3/4, 0], arr_v = [0, -1/2, 0]\<rparr> ! k \<and> arr_v s3 ! k = arr_v \<lparr>arr_t = [0, 1/2, 1], arr_x = [1, 3/4, 0], arr_v = [0, -1/2, 0]\<rparr> ! k"
    by blast
  from s3(3) have "arr_x s3 ! 1 = arr_x \<lparr>arr_t = [0, 1/2, 1], arr_x = [1, 3/4, 0], arr_v = [0, -1/2, 0]\<rparr> ! 1 \<and> arr_v s3 ! 1 = arr_v \<lparr>arr_t = [0, 1/2, 1], arr_x = [1, 3/4, 0], arr_v = [0, -1/2, 0]\<rparr> ! 1"
    by simp
  with s3(1,2) have 3: "\<exists>s1. loop_body EulerCromer (a_driven (1/2) 1 (1/2) 1 2) (1/2) 1 \<lparr>arr_t = [0, 1/2, 1], arr_x = [1, 3/4, 0], arr_v = [0, -1/2, 0]\<rparr> = Inr s1
       \<and> arr_t s1 = arr_t \<lparr>arr_t = [0, 1/2, 1], arr_x = [1, 3/4, 0], arr_v = [0, -1/2, 0]\<rparr>
       \<and> arr_x s1 ! 1 = arr_x \<lparr>arr_t = [0, 1/2, 1], arr_x = [1, 3/4, 0], arr_v = [0, -1/2, 0]\<rparr> ! 1 \<and> arr_v s1 ! 1 = arr_v \<lparr>arr_t = [0, 1/2, 1], arr_x = [1, 3/4, 0], arr_v = [0, -1/2, 0]\<rparr> ! 1"
    by blast
  from g4 obtain s4 where s4:
    "for_range (loop_body EulerCromer (a_driven (1/2) 1 (1/2) 1 2) (1/2)) [1..<2] \<lparr>arr_t = [0, 1/2, 1], arr_x = [1, 3/4, 0], arr_v = [0, -1/2, 0]\<rparr> = Inr s4"
    "arr_t s4 = arr_t \<lparr>arr_t = [0, 1/2, 1], arr_x = [1, 3/4, 0], arr_v = [0, -1/2, 0]\<rparr>"
    "\<forall>k\<le>1. arr_x s4 ! k = arr_x \<lparr>arr_t = [0, 1/2, 1], arr_x = [1, 3/4, 0], arr_v = [0, -1/2, 0]\<rparr> ! k \<and> arr_v s4 ! k = arr_v \<lparr>arr_t = [0, 1/2, 1], arr_x = [1, 3/4, 0], arr_v = [0, -1/2, 0]\<rparr> ! k"
    by auto
  from s4(3) have "arr_x s4 ! 1 = arr_x \<lparr>arr_t = [0, 1/2, 1], arr_x = [1, 3/4, 0], arr_v = [0, -1/2, 0]\<rparr> ! 1 \<and> arr_v s4 ! 1 = arr_v \<lparr>arr_t = [0, 1/2, 1], arr_x = [1, 3/4, 0], arr_v = [0, -1/2, 0]\<rparr> ! 1"
    by simp
  with s4(1,2) have 4: "\<exists>s'. for_range (loop_body EulerCromer (a_driven (1/2) 1 (1/2) 1 2) (1/2)) [1..<2] \<lparr>arr_t = [0, 1/2, 1], arr_x = [1, 3/4, 0], arr_v = [0, -1/2, 0]\<rparr> = Inr s'
       \<and> arr_t s' = arr_t \<lparr>arr_t = [0, 1/2, 1], arr_x = [1, 3/4, 0], arr_v = [0, -1/2, 0]\<rparr>
       \<and> arr_x s' ! 1 = arr_x \<lparr>arr_t = [0, 1/2, 1], arr_x = [1, 3/4, 0], arr_v = [0, -1/2, 0]\<rparr> ! 1 \<and> arr_v s' ! 1 = arr_v \<lparr>arr_t = [0, 1/2, 1], arr_x = [1, 3/4, 0], arr_v = [0, -1/2, 0]\<rparr> ! 1"
    by blast
  from g5 have 5: "\<exists>s0 sn. init_arrays 2 1 1 0 = Inr s0
       \<and> for_range (loop_body EulerCromer (a_damped 1 (1/2)) (1/2)) [0..<2] s0 = Inr sn
       \<and> arr_x sn ! 0 = 1 \<and> arr_v sn ! 0 = 0"
    by simp
  from h a 1 2 3 4 5 show ?thesis by (intro conjI)
qed

end
